theory Spec2Isabelle
  imports Main
begin

section \<open>Raw storage and element types\<close>

text \<open>
  The container of \<^verbatim>\<open>vector.h\<close> keeps its elements in blocks obtained from
  \<^verbatim>\<open>operator new\<close>.  A block is a sequence of slots; a slot is raw storage, or holds a
  live object of the element type \<^verbatim>\<open>T\<close> with a value, or holds a live object whose
  value is indeterminate (an object of a trivially default-constructible type after
  default-initialisation; reading it is undefined behaviour).  A block remembers how often
  \<^verbatim>\<open>operator delete\<close> was applied to it, so that a second release and objects that
  were never destroyed stay visible after the block is gone.
\<close>

datatype 'a slot = Raw | Live 'a | Indet

record 'a block =
  slots :: "'a slot list"
  freed :: nat

text \<open>
  The heap: the blocks handed out so far (the address of a block is its index), the largest
  request in bytes that \<^verbatim>\<open>operator new\<close> serves (larger ones throw
  \<^verbatim>\<open>std::bad_alloc\<close>), and the number of constructor and assignment calls of \<^verbatim>\<open>T\<close>
  executed so far.
\<close>

record 'a heap =
  blocks :: "'a block list"
  limit :: nat
  ticks :: nat

text \<open>A \<^verbatim>\<open>T*\<close>: the null pointer, or a block address with an offset in slots.\<close>

datatype ptr = Null | Ptr nat nat

datatype exn = BadAlloc | ElemExn

text \<open>
  How a call ends: normally with a value, by an exception that propagates to the caller,
  or by undefined behaviour (a slot used in the wrong state, an access outside a block, a
  block released twice, a violated \<^verbatim>\<open>assert\<close>).
\<close>

datatype 'r outcome = Ok 'r | Throw exn | Fault

datatype opk = DefaultCtor | ArgsCtor | CopyCtor | MoveCtor | CopyAssign | MoveAssign

text \<open>
  What the container sees of the element type \<^verbatim>\<open>T\<close>: \<^verbatim>\<open>sizeof(T)\<close>, the two traits
  tested by \<^verbatim>\<open>MoveDataIfPossibleOrCopyInstead\<close>, the value that the default constructor
  gives an object (\<open>None\<close> for a trivially default-constructible type, whose
  default-initialisation writes nothing), the value a moved-from object is left with, and
  which operations throw (\<open>throws T k t x\<close>: operation \<open>k\<close> on value \<open>x\<close>, executed as
  element operation number \<open>t\<close>, throws).
\<close>

record 'a elem_type =
  sizeof :: nat
  nothrow_move :: bool
  copyable :: bool
  dflt :: "'a option"
  residue :: "'a \<Rightarrow> 'a"
  throws :: "opk \<Rightarrow> nat \<Rightarrow> 'a \<Rightarrow> bool"

text \<open>A move constructor declared \<^verbatim>\<open>noexcept\<close> never lets an exception out.\<close>

definition raises :: "'a elem_type \<Rightarrow> opk \<Rightarrow> nat \<Rightarrow> 'a \<Rightarrow> bool" where
  "raises T k t x = (throws T k t x \<and> \<not> (k = MoveCtor \<and> nothrow_move T))"

text \<open>
  The arguments forwarded to a constructor of \<^verbatim>\<open>T\<close>: arguments that do not refer to
  the heap and build the value \<open>x\<close>; a \<^verbatim>\<open>const T&\<close> to an object in the heap, which
  is read when the copy constructor runs; or a \<^verbatim>\<open>T&&\<close> to an object in the heap, which
  the move constructor reads and leaves moved-from.
\<close>

datatype 'a arg = Val 'a | CRef ptr | RRef ptr

subsection \<open>Pointers and slots\<close>

fun ptr_add :: "ptr \<Rightarrow> nat \<Rightarrow> ptr" where
  "ptr_add Null k = Null"
| "ptr_add (Ptr a i) k = Ptr a (i + k)"

text \<open>\<^verbatim>\<open>std::distance(first, last)\<close>, defined for two pointers into one block, \<open>first\<close> not after \<open>last\<close>.\<close>

fun distance :: "ptr \<Rightarrow> ptr \<Rightarrow> nat option" where
  "distance Null Null = Some 0"
| "distance (Ptr a i) (Ptr b j) = (if a = b \<and> i \<le> j then Some (j - i) else None)"
| "distance _ _ = None"

fun slot_at :: "'a heap \<Rightarrow> ptr \<Rightarrow> 'a slot option" where
  "slot_at h Null = None"
| "slot_at h (Ptr a i) =
     (if a < length (blocks h) \<and> freed (blocks h ! a) = 0 \<and> i < length (slots (blocks h ! a))
      then Some (slots (blocks h ! a) ! i) else None)"

fun put_slot :: "ptr \<Rightarrow> 'a slot \<Rightarrow> 'a heap \<Rightarrow> 'a heap" where
  "put_slot Null s h = h"
| "put_slot (Ptr a i) s h =
     h\<lparr>blocks := (blocks h)[a := (blocks h ! a)\<lparr>slots := (slots (blocks h ! a))[i := s]\<rparr>]\<rparr>"

definition tick :: "'a heap \<Rightarrow> 'a heap" where
  "tick h = h\<lparr>ticks := Suc (ticks h)\<rparr>"

subsection \<open>Operations on one element\<close>

text \<open>Placement new of a \<^verbatim>\<open>T\<close> with value \<open>x\<close> by constructor kind \<open>k\<close> into raw storage.\<close>

definition construct :: "'a elem_type \<Rightarrow> opk \<Rightarrow> ptr \<Rightarrow> 'a \<Rightarrow> 'a heap \<Rightarrow> unit outcome \<times> 'a heap" where
  "construct T k dst x h =
     (case slot_at h dst of
        Some Raw \<Rightarrow>
          if raises T k (ticks h) x then (Throw ElemExn, tick h)
          else (Ok (), put_slot dst (Live x) (tick h))
      | _ \<Rightarrow> (Fault, h))"

definition copy_construct :: "'a elem_type \<Rightarrow> ptr \<Rightarrow> ptr \<Rightarrow> 'a heap \<Rightarrow> unit outcome \<times> 'a heap" where
  "copy_construct T dst src h =
     (case slot_at h src of
        Some (Live x) \<Rightarrow> construct T CopyCtor dst x h
      | _ \<Rightarrow> (Fault, h))"

definition move_construct :: "'a elem_type \<Rightarrow> ptr \<Rightarrow> ptr \<Rightarrow> 'a heap \<Rightarrow> unit outcome \<times> 'a heap" where
  "move_construct T dst src h =
     (case slot_at h src of
        Some (Live x) \<Rightarrow>
          (case construct T MoveCtor dst x h of
             (Ok u, h1) \<Rightarrow> (Ok u, put_slot src (Live (residue T x)) h1)
           | r \<Rightarrow> r)
      | _ \<Rightarrow> (Fault, h))"

text \<open>
  Default-initialisation \<^verbatim>\<open>new (dst) T\<close>: the default constructor runs if there is one;
  for a trivially default-constructible type no code runs and the value of the new object
  is indeterminate.
\<close>

definition default_construct :: "'a elem_type \<Rightarrow> ptr \<Rightarrow> 'a heap \<Rightarrow> unit outcome \<times> 'a heap" where
  "default_construct T dst h =
     (case dflt T of
        Some d \<Rightarrow> construct T DefaultCtor dst d h
      | None \<Rightarrow>
          (case slot_at h dst of
             Some Raw \<Rightarrow> (Ok (), put_slot dst Indet h)
           | _ \<Rightarrow> (Fault, h)))"

text \<open>\<^verbatim>\<open>new (dst) T(std::forward<Args>(args)...)\<close>\<close>

fun emplace_construct :: "'a elem_type \<Rightarrow> ptr \<Rightarrow> 'a arg \<Rightarrow> 'a heap \<Rightarrow> unit outcome \<times> 'a heap" where
  "emplace_construct T dst (Val x) h = construct T ArgsCtor dst x h"
| "emplace_construct T dst (CRef p) h = copy_construct T dst p h"
| "emplace_construct T dst (RRef p) h = move_construct T dst p h"

text \<open>The temporary \<^verbatim>\<open>T(std::forward<Args>(args)...)\<close>, an object outside the heap.\<close>

fun make_temp :: "'a elem_type \<Rightarrow> 'a arg \<Rightarrow> 'a heap \<Rightarrow> 'a outcome \<times> 'a heap" where
  "make_temp T (Val x) h =
     (if raises T ArgsCtor (ticks h) x then (Throw ElemExn, tick h) else (Ok x, tick h))"
| "make_temp T (CRef p) h =
     (case slot_at h p of
        Some (Live x) \<Rightarrow>
          if raises T CopyCtor (ticks h) x then (Throw ElemExn, tick h) else (Ok x, tick h)
      | _ \<Rightarrow> (Fault, h))"
| "make_temp T (RRef p) h =
     (case slot_at h p of
        Some (Live x) \<Rightarrow>
          if raises T MoveCtor (ticks h) x then (Throw ElemExn, tick h)
          else (Ok x, put_slot p (Live (residue T x)) (tick h))
      | _ \<Rightarrow> (Fault, h))"

text \<open>Assignment of the value \<open>x\<close> to the live object at \<open>dst\<close>, whatever it held.\<close>

definition assign :: "'a elem_type \<Rightarrow> opk \<Rightarrow> ptr \<Rightarrow> 'a \<Rightarrow> 'a heap \<Rightarrow> unit outcome \<times> 'a heap" where
  "assign T k dst x h =
     (case slot_at h dst of
        None \<Rightarrow> (Fault, h)
      | Some Raw \<Rightarrow> (Fault, h)
      | Some s \<Rightarrow>
          if raises T k (ticks h) x then (Throw ElemExn, tick h)
          else (Ok (), put_slot dst (Live x) (tick h)))"

definition copy_assign :: "'a elem_type \<Rightarrow> ptr \<Rightarrow> ptr \<Rightarrow> 'a heap \<Rightarrow> unit outcome \<times> 'a heap" where
  "copy_assign T dst src h =
     (case slot_at h src of
        Some (Live x) \<Rightarrow> assign T CopyAssign dst x h
      | _ \<Rightarrow> (Fault, h))"

definition move_assign :: "'a elem_type \<Rightarrow> ptr \<Rightarrow> ptr \<Rightarrow> 'a heap \<Rightarrow> unit outcome \<times> 'a heap" where
  "move_assign T dst src h =
     (case slot_at h src of
        Some (Live x) \<Rightarrow>
          (case assign T MoveAssign dst x h of
             (Ok u, h1) \<Rightarrow> (Ok u, put_slot src (Live (residue T x)) h1)
           | r \<Rightarrow> r)
      | _ \<Rightarrow> (Fault, h))"

text \<open>\<^verbatim>\<open>std::destroy_at\<close>: the destructor of \<^verbatim>\<open>T\<close> does not throw.\<close>

definition destroy_at :: "ptr \<Rightarrow> 'a heap \<Rightarrow> unit outcome \<times> 'a heap" where
  "destroy_at p h =
     (case slot_at h p of
        None \<Rightarrow> (Fault, h)
      | Some Raw \<Rightarrow> (Fault, h)
      | Some s \<Rightarrow> (Ok (), put_slot p Raw h))"

subsection \<open>The algorithms of the standard library\<close>

fun destroy_n :: "ptr \<Rightarrow> nat \<Rightarrow> 'a heap \<Rightarrow> unit outcome \<times> 'a heap" where
  "destroy_n p 0 h = (Ok (), h)"
| "destroy_n p (Suc n) h =
     (case destroy_at p h of
        (Ok u, h1) \<Rightarrow> destroy_n (ptr_add p 1) n h1
      | r \<Rightarrow> r)"

text \<open>
  The \<^verbatim>\<open>uninitialized_\<close> algorithms construct \<open>n\<close> objects in raw storage; when a
  constructor throws, the objects constructed by the call so far are destroyed and the
  exception is passed on.
\<close>

fun uninitialized_copy_n :: "'a elem_type \<Rightarrow> ptr \<Rightarrow> nat \<Rightarrow> ptr \<Rightarrow> 'a heap \<Rightarrow> unit outcome \<times> 'a heap" where
  "uninitialized_copy_n T src 0 dst h = (Ok (), h)"
| "uninitialized_copy_n T src (Suc n) dst h =
     (case copy_construct T dst src h of
        (Ok u, h1) \<Rightarrow>
          (case uninitialized_copy_n T (ptr_add src 1) n (ptr_add dst 1) h1 of
             (Throw e, h2) \<Rightarrow>
               (case destroy_at dst h2 of (Ok u, h3) \<Rightarrow> (Throw e, h3) | r \<Rightarrow> r)
           | r \<Rightarrow> r)
      | r \<Rightarrow> r)"

fun uninitialized_move_n :: "'a elem_type \<Rightarrow> ptr \<Rightarrow> nat \<Rightarrow> ptr \<Rightarrow> 'a heap \<Rightarrow> unit outcome \<times> 'a heap" where
  "uninitialized_move_n T src 0 dst h = (Ok (), h)"
| "uninitialized_move_n T src (Suc n) dst h =
     (case move_construct T dst src h of
        (Ok u, h1) \<Rightarrow>
          (case uninitialized_move_n T (ptr_add src 1) n (ptr_add dst 1) h1 of
             (Throw e, h2) \<Rightarrow>
               (case destroy_at dst h2 of (Ok u, h3) \<Rightarrow> (Throw e, h3) | r \<Rightarrow> r)
           | r \<Rightarrow> r)
      | r \<Rightarrow> r)"

fun uninitialized_default_construct_n :: "'a elem_type \<Rightarrow> ptr \<Rightarrow> nat \<Rightarrow> 'a heap \<Rightarrow> unit outcome \<times> 'a heap" where
  "uninitialized_default_construct_n T dst 0 h = (Ok (), h)"
| "uninitialized_default_construct_n T dst (Suc n) h =
     (case default_construct T dst h of
        (Ok u, h1) \<Rightarrow>
          (case uninitialized_default_construct_n T (ptr_add dst 1) n h1 of
             (Throw e, h2) \<Rightarrow>
               (case destroy_at dst h2 of (Ok u, h3) \<Rightarrow> (Throw e, h3) | r \<Rightarrow> r)
           | r \<Rightarrow> r)
      | r \<Rightarrow> r)"

text \<open>\<^verbatim>\<open>std::copy_n\<close>: \<open>n\<close> copy assignments, front to back.\<close>

fun copy_n :: "'a elem_type \<Rightarrow> ptr \<Rightarrow> nat \<Rightarrow> ptr \<Rightarrow> 'a heap \<Rightarrow> unit outcome \<times> 'a heap" where
  "copy_n T src 0 dst h = (Ok (), h)"
| "copy_n T src (Suc n) dst h =
     (case copy_assign T dst src h of
        (Ok u, h1) \<Rightarrow> copy_n T (ptr_add src 1) n (ptr_add dst 1) h1
      | r \<Rightarrow> r)"

text \<open>\<^verbatim>\<open>std::move(first, last, d_first)\<close>: move assignments, front to back.\<close>

fun move_n :: "'a elem_type \<Rightarrow> ptr \<Rightarrow> nat \<Rightarrow> ptr \<Rightarrow> 'a heap \<Rightarrow> unit outcome \<times> 'a heap" where
  "move_n T src 0 dst h = (Ok (), h)"
| "move_n T src (Suc n) dst h =
     (case move_assign T dst src h of
        (Ok u, h1) \<Rightarrow> move_n T (ptr_add src 1) n (ptr_add dst 1) h1
      | r \<Rightarrow> r)"

definition std_move :: "'a elem_type \<Rightarrow> ptr \<Rightarrow> ptr \<Rightarrow> ptr \<Rightarrow> 'a heap \<Rightarrow> unit outcome \<times> 'a heap" where
  "std_move T first lst d_first h =
     (case distance first lst of
        None \<Rightarrow> (Fault, h)
      | Some n \<Rightarrow> move_n T first n d_first h)"

text \<open>
  \<^verbatim>\<open>std::move_backward(first, last, d_last)\<close>: move assignments, back to front; with
  \<open>n\<close> elements left, the one at \<open>first + (n - 1)\<close> goes to \<open>d_first + (n - 1)\<close>.
\<close>

fun move_backward_n :: "'a elem_type \<Rightarrow> ptr \<Rightarrow> nat \<Rightarrow> ptr \<Rightarrow> 'a heap \<Rightarrow> unit outcome \<times> 'a heap" where
  "move_backward_n T first 0 d_first h = (Ok (), h)"
| "move_backward_n T first (Suc n) d_first h =
     (case move_assign T (ptr_add d_first n) (ptr_add first n) h of
        (Ok u, h1) \<Rightarrow> move_backward_n T first n d_first h1
      | r \<Rightarrow> r)"

definition move_backward :: "'a elem_type \<Rightarrow> ptr \<Rightarrow> ptr \<Rightarrow> ptr \<Rightarrow> 'a heap \<Rightarrow> unit outcome \<times> 'a heap" where
  "move_backward T first lst d_last h =
     (case distance first lst of
        None \<Rightarrow> (Fault, h)
      | Some n \<Rightarrow>
          (case d_last of
             Ptr b j \<Rightarrow> if n \<le> j then move_backward_n T first n (Ptr b (j - n)) h else (Fault, h)
           | Null \<Rightarrow> if n = 0 then (Ok (), h) else (Fault, h)))"


fun ptr_sub :: "ptr \<Rightarrow> nat \<Rightarrow> ptr option" where
  "ptr_sub Null k = (if k = 0 then Some Null else None)"
| "ptr_sub (Ptr a i) k = (if k \<le> i then Some (Ptr a (i - k)) else None)"

text \<open>An exception or a fault of a callee, passed on by a caller with another result type.\<close>

fun rethrow :: "'r outcome \<Rightarrow> 'q outcome" where
  "rethrow (Throw e) = Throw e"
| "rethrow _ = Fault"

section \<open>RawMemory\<close>

text \<open>
  \<^verbatim>\<open>operator new\<close> for a number of bytes returns a block not handed out before or
  throws; the block has room for as many objects of \<^verbatim>\<open>T\<close> as fit into the bytes, and a
  request of 0 bytes is served with a block that has room for none.
  \<^verbatim>\<open>operator delete\<close> accepts the null pointer and releases a block; releasing a block
  again is undefined behaviour, and the count of releases is kept.
\<close>

definition operator_new :: "'a elem_type \<Rightarrow> nat \<Rightarrow> 'a heap \<Rightarrow> ptr outcome \<times> 'a heap" where
  "operator_new T bytes h =
     (if limit h < bytes then (Throw BadAlloc, h)
      else (Ok (Ptr (length (blocks h)) 0),
            h\<lparr>blocks := blocks h @ [\<lparr>slots = replicate (bytes div sizeof T) Raw, freed = 0\<rparr>]\<rparr>))"

definition operator_delete :: "ptr \<Rightarrow> 'a heap \<Rightarrow> unit outcome \<times> 'a heap" where
  "operator_delete p h =
     (case p of
        Null \<Rightarrow> (Ok (), h)
      | Ptr a i \<Rightarrow>
          if a < length (blocks h) \<and> i = 0
          then (if freed (blocks h ! a) = 0 then Ok () else Fault,
                h\<lparr>blocks := (blocks h)[a := (blocks h ! a)\<lparr>freed := Suc (freed (blocks h ! a))\<rparr>]\<rparr>)
          else (Fault, h))"

text \<open>
  The fields \<^verbatim>\<open>buffer_\<close>, \<^verbatim>\<open>capacity_\<close>, \<^verbatim>\<open>data_\<close> and \<^verbatim>\<open>size_\<close> of the source are
  \<open>m_buffer\<close>, \<open>m_capacity\<close>, \<open>m_data\<close> and \<open>m_size\<close> here.  Values of \<^verbatim>\<open>size_t\<close> are
  natural numbers; the two products that can leave the range of 64 bits,
  \<^verbatim>\<open>n * sizeof(T)\<close> in \<^verbatim>\<open>Allocate\<close> and \<^verbatim>\<open>size_ * 2\<close>, are reduced modulo \<open>2 ^ 64\<close>
  where they are computed.  \<^verbatim>\<open>Allocate\<close> does not check its product: a wrapped request
  yields a block smaller than the capacity that \<^verbatim>\<open>RawMemory\<close> records.
\<close>

record rawmem =
  m_buffer :: ptr
  m_capacity :: nat

definition Allocate :: "'a elem_type \<Rightarrow> nat \<Rightarrow> 'a heap \<Rightarrow> ptr outcome \<times> 'a heap" where
  "Allocate T n h = (if n \<noteq> 0 then operator_new T ((n * sizeof T) mod 2 ^ 64) h else (Ok Null, h))"

definition Deallocate :: "ptr \<Rightarrow> 'a heap \<Rightarrow> unit outcome \<times> 'a heap" where
  "Deallocate buf h = operator_delete buf h"

definition RawMemory_default :: rawmem where
  "RawMemory_default = \<lparr>m_buffer = Null, m_capacity = 0\<rparr>"

definition RawMemory_ctor :: "'a elem_type \<Rightarrow> nat \<Rightarrow> 'a heap \<Rightarrow> rawmem outcome \<times> 'a heap" where
  "RawMemory_ctor T capacity h =
     (case Allocate T capacity h of
        (Ok p, h1) \<Rightarrow> (Ok \<lparr>m_buffer = p, m_capacity = capacity\<rparr>, h1)
      | (r, h1) \<Rightarrow> (rethrow r, h1))"

definition RawMemory_dtor :: "rawmem \<Rightarrow> 'a heap \<Rightarrow> unit outcome \<times> 'a heap" where
  "RawMemory_dtor m h = Deallocate (m_buffer m) h"

text \<open>\<open>RawMemory_Swap m other\<close> returns the new \<open>m\<close> and the new \<open>other\<close>.\<close>

definition RawMemory_Swap :: "rawmem \<Rightarrow> rawmem \<Rightarrow> rawmem \<times> rawmem" where
  "RawMemory_Swap m other =
     (m\<lparr>m_buffer := m_buffer other, m_capacity := m_capacity other\<rparr>,
      other\<lparr>m_buffer := m_buffer m, m_capacity := m_capacity m\<rparr>)"

definition GetAddress :: "rawmem \<Rightarrow> ptr" where
  "GetAddress m = m_buffer m"

definition raw_plus :: "rawmem \<Rightarrow> nat \<Rightarrow> ptr" where
  "raw_plus m offset = ptr_add (m_buffer m) offset"

section \<open>Vector\<close>

record vector =
  m_data :: rawmem
  m_size :: nat

definition Vector_default :: vector where
  "Vector_default = \<lparr>m_data = RawMemory_default, m_size = 0\<rparr>"

definition Size :: "vector \<Rightarrow> nat" where
  "Size v = m_size v"

definition Capacity :: "vector \<Rightarrow> nat" where
  "Capacity v = m_capacity (m_data v)"

definition begin_v :: "vector \<Rightarrow> ptr" where
  "begin_v v = GetAddress (m_data v)"

definition end_v :: "vector \<Rightarrow> ptr" where
  "end_v v = ptr_add (GetAddress (m_data v)) (m_size v)"

text \<open>\<open>Swap v other\<close> returns the new \<open>v\<close> and the new \<open>other\<close>; no heap is involved.\<close>

definition Swap :: "vector \<Rightarrow> vector \<Rightarrow> vector \<times> vector" where
  "Swap v other =
     (case RawMemory_Swap (m_data v) (m_data other) of
        (d, od) \<Rightarrow> (v\<lparr>m_data := d, m_size := m_size other\<rparr>, other\<lparr>m_data := od, m_size := m_size v\<rparr>))"

text \<open>
  \<^verbatim>\<open>Vector(const Vector& other)\<close>.  When a copy throws, the member \<^verbatim>\<open>data_\<close>, which is
  already constructed, is destroyed while the exception unwinds.
\<close>

definition Vector_copy :: "'a elem_type \<Rightarrow> vector \<Rightarrow> 'a heap \<Rightarrow> vector outcome \<times> 'a heap" where
  "Vector_copy T other h =
     (case RawMemory_ctor T (m_size other) h of
        (Ok d, h1) \<Rightarrow>
          (case uninitialized_copy_n T (GetAddress (m_data other)) (m_size other) (GetAddress d) h1 of
             (Ok u, h2) \<Rightarrow> (Ok \<lparr>m_data = d, m_size = m_size other\<rparr>, h2)
           | (Throw e, h2) \<Rightarrow>
               (case RawMemory_dtor d h2 of (Ok u, h3) \<Rightarrow> (Throw e, h3) | (r, h3) \<Rightarrow> (rethrow r, h3))
           | (Fault, h2) \<Rightarrow> (Fault, h2))
      | (r, h1) \<Rightarrow> (rethrow r, h1))"

text \<open>\<^verbatim>\<open>Vector(Vector&& other)\<close>: returns the new vector and what is left of \<open>other\<close>.\<close>

definition Vector_move :: "vector \<Rightarrow> vector \<times> vector" where
  "Vector_move other = Swap Vector_default other"

text \<open>\<^verbatim>\<open>operator=(Vector&& rhs)\<close>\<close>

definition move_assignment :: "vector \<Rightarrow> vector \<Rightarrow> vector \<times> vector" where
  "move_assignment v rhs = Swap v rhs"

text \<open>\<^verbatim>\<open>~Vector()\<close>, followed by the destructor of the member \<^verbatim>\<open>data_\<close>.\<close>

definition Vector_dtor :: "vector \<Rightarrow> 'a heap \<Rightarrow> unit outcome \<times> 'a heap" where
  "Vector_dtor v h =
     (case destroy_n (GetAddress (m_data v)) (m_size v) h of
        (Ok u, h1) \<Rightarrow> RawMemory_dtor (m_data v) h1
      | r \<Rightarrow> r)"

text \<open>
  \<^verbatim>\<open>operator=(const Vector& other)\<close>.  The temporary of the first branch dies at the end
  of that branch, before \<^verbatim>\<open>size_\<close> is assigned.
\<close>

definition copy_assignment :: "'a elem_type \<Rightarrow> vector \<Rightarrow> vector \<Rightarrow> 'a heap \<Rightarrow> unit outcome \<times> vector \<times> 'a heap" where
  "copy_assignment T v other h =
     (if m_size other > m_capacity (m_data v) then
        (case Vector_copy T other h of
           (Ok temp, h1) \<Rightarrow>
             (case Swap v temp of
                (v1, temp1) \<Rightarrow>
                  (case Vector_dtor temp1 h1 of
                     (Ok u, h2) \<Rightarrow> (Ok (), v1\<lparr>m_size := Size other\<rparr>, h2)
                   | (r, h2) \<Rightarrow> (r, v1, h2)))
         | (r, h1) \<Rightarrow> (rethrow r, v, h1))
      else
        (case copy_n T (GetAddress (m_data other)) (min (Size v) (Size other)) (GetAddress (m_data v)) h of
           (Ok u, h1) \<Rightarrow>
             (if Size v > Size other then
                (case destroy_n (raw_plus (m_data v) (Size other)) (Size v - Size other) h1 of
                   (Ok u, h2) \<Rightarrow> (Ok (), v\<lparr>m_size := Size other\<rparr>, h2)
                 | (r, h2) \<Rightarrow> (r, v, h2))
              else if Size v < Size other then
                (case uninitialized_copy_n T (ptr_add (GetAddress (m_data other)) (Size v))
                        (Size other - Size v) (ptr_add (GetAddress (m_data v)) (Size v)) h1 of
                   (Ok u, h2) \<Rightarrow> (Ok (), v\<lparr>m_size := Size other\<rparr>, h2)
                 | (r, h2) \<Rightarrow> (r, v, h2))
              else (Ok (), v\<lparr>m_size := Size other\<rparr>, h1))
         | (r, h1) \<Rightarrow> (r, v, h1)))"

definition MoveDataIfPossibleOrCopyInstead :: "'a elem_type \<Rightarrow> ptr \<Rightarrow> nat \<Rightarrow> ptr \<Rightarrow> 'a heap \<Rightarrow> unit outcome \<times> 'a heap" where
  "MoveDataIfPossibleOrCopyInstead T input_it n output_it h =
     (if nothrow_move T \<or> \<not> copyable T then uninitialized_move_n T input_it n output_it h
      else uninitialized_copy_n T input_it n output_it h)"

text \<open>
  \<^verbatim>\<open>Reserve\<close>.  The local \<^verbatim>\<open>new_data\<close> is destroyed when the function is left: after
  the swap it holds the old block, during unwinding the new one.
\<close>

definition Reserve :: "'a elem_type \<Rightarrow> nat \<Rightarrow> vector \<Rightarrow> 'a heap \<Rightarrow> unit outcome \<times> vector \<times> 'a heap" where
  "Reserve T new_capacity v h =
     (if new_capacity \<le> m_capacity (m_data v) then (Ok (), v, h)
      else
        (case RawMemory_ctor T new_capacity h of
           (Ok new_data, h1) \<Rightarrow>
             (case MoveDataIfPossibleOrCopyInstead T (GetAddress (m_data v)) (Size v) (GetAddress new_data) h1 of
                (Ok u, h2) \<Rightarrow>
                  (case destroy_n (GetAddress (m_data v)) (m_size v) h2 of
                     (Ok u, h3) \<Rightarrow>
                       (case RawMemory_Swap (m_data v) new_data of
                          (d, nd) \<Rightarrow>
                            (case RawMemory_dtor nd h3 of (r, h4) \<Rightarrow> (r, v\<lparr>m_data := d\<rparr>, h4)))
                   | (r, h3) \<Rightarrow> (r, v, h3))
              | (Throw e, h2) \<Rightarrow>
                  (case RawMemory_dtor new_data h2 of
                     (Ok u, h3) \<Rightarrow> (Throw e, v, h3)
                   | (r, h3) \<Rightarrow> (r, v, h3))
              | (Fault, h2) \<Rightarrow> (Fault, v, h2))
         | (r, h1) \<Rightarrow> (rethrow r, v, h1)))"

definition Resize :: "'a elem_type \<Rightarrow> nat \<Rightarrow> vector \<Rightarrow> 'a heap \<Rightarrow> unit outcome \<times> vector \<times> 'a heap" where
  "Resize T new_size v h =
     (case Reserve T new_size v h of
        (Ok u, v1, h1) \<Rightarrow>
          (if new_size < m_size v1 then
             (case destroy_n (raw_plus (m_data v1) new_size) (m_size v1 - new_size) h1 of
                (Ok u, h2) \<Rightarrow> (Ok (), v1\<lparr>m_size := new_size\<rparr>, h2)
              | (r, h2) \<Rightarrow> (r, v1, h2))
           else if new_size > m_size v1 then
             (case uninitialized_default_construct_n T (raw_plus (m_data v1) (m_size v1))
                     (new_size - m_size v1) h1 of
                (Ok u, h2) \<Rightarrow> (Ok (), v1\<lparr>m_size := new_size\<rparr>, h2)
              | (r, h2) \<Rightarrow> (r, v1, h2))
           else (Ok (), v1\<lparr>m_size := new_size\<rparr>, h1))
      | r \<Rightarrow> r)"

text \<open>\<^verbatim>\<open>PopBack\<close>: the \<^verbatim>\<open>assert\<close> fails on an empty vector.\<close>

definition PopBack :: "vector \<Rightarrow> 'a heap \<Rightarrow> unit outcome \<times> vector \<times> 'a heap" where
  "PopBack v h =
     (if m_size v > 0 then
        (case destroy_at (raw_plus (m_data v) (m_size v - 1)) h of
           (r, h1) \<Rightarrow> (r, v\<lparr>m_size := m_size v - 1\<rparr>, h1))
      else (Fault, v, h))"

text \<open>
  \<^verbatim>\<open>EmplaceBack\<close>, which \<^verbatim>\<open>PushBack\<close> forwards to; the result is the address of
  \<^verbatim>\<open>data_[size_ - 1]\<close>.  \<^verbatim>\<open>new_data\<close> lives in the first branch only.
\<close>

definition EmplaceBack :: "'a elem_type \<Rightarrow> 'a arg \<Rightarrow> vector \<Rightarrow> 'a heap \<Rightarrow> ptr outcome \<times> vector \<times> 'a heap" where
  "EmplaceBack T args v h =
     (if m_size v = m_capacity (m_data v) then
        (case RawMemory_ctor T (if m_size v = 0 then 1 else (m_size v * 2) mod 2 ^ 64) h of
           (Ok new_data, h1) \<Rightarrow>
             (case emplace_construct T (ptr_add (GetAddress new_data) (m_size v)) args h1 of
                (Ok u, h2) \<Rightarrow>
                  (case MoveDataIfPossibleOrCopyInstead T (GetAddress (m_data v)) (Size v) (GetAddress new_data) h2 of
                     (Ok u, h3) \<Rightarrow>
                       (case destroy_n (GetAddress (m_data v)) (m_size v) h3 of
                          (Ok u, h4) \<Rightarrow>
                            (case RawMemory_Swap (m_data v) new_data of
                               (d, nd) \<Rightarrow>
                                 (case RawMemory_dtor nd h4 of
                                    (Ok u, h5) \<Rightarrow>
                                      (Ok (raw_plus d (m_size v)), v\<lparr>m_data := d, m_size := m_size v + 1\<rparr>, h5)
                                  | (r, h5) \<Rightarrow> (rethrow r, v\<lparr>m_data := d\<rparr>, h5)))
                        | (r, h4) \<Rightarrow> (rethrow r, v, h4))
                   | (Throw e, h3) \<Rightarrow>
                       (case RawMemory_dtor new_data h3 of
                          (Ok u, h4) \<Rightarrow> (Throw e, v, h4)
                        | (r, h4) \<Rightarrow> (rethrow r, v, h4))
                   | (Fault, h3) \<Rightarrow> (Fault, v, h3))
              | (Throw e, h2) \<Rightarrow>
                  (case RawMemory_dtor new_data h2 of
                     (Ok u, h3) \<Rightarrow> (Throw e, v, h3)
                   | (r, h3) \<Rightarrow> (rethrow r, v, h3))
              | (Fault, h2) \<Rightarrow> (Fault, v, h2))
         | (r, h1) \<Rightarrow> (rethrow r, v, h1))
      else
        (case emplace_construct T (ptr_add (GetAddress (m_data v)) (m_size v)) args h of
           (Ok u, h1) \<Rightarrow> (Ok (raw_plus (m_data v) (m_size v)), v\<lparr>m_size := m_size v + 1\<rparr>, h1)
         | (r, h1) \<Rightarrow> (rethrow r, v, h1)))"

definition PushBack :: "'a elem_type \<Rightarrow> 'a arg \<Rightarrow> vector \<Rightarrow> 'a heap \<Rightarrow> unit outcome \<times> vector \<times> 'a heap" where
  "PushBack T val v h =
     (case EmplaceBack T val v h of
        (Ok p, v1, h1) \<Rightarrow> (Ok (), v1, h1)
      | (r, v1, h1) \<Rightarrow> (rethrow r, v1, h1))"


text \<open>
  The \<^verbatim>\<open>try\<close> block of \<^verbatim>\<open>InsertWithRealloc\<close>; it returns the vector and the local
  \<^verbatim>\<open>new_data\<close> as it leaves them.  \<^verbatim>\<open>size_ - dist\<close> is a difference of unsigned
  numbers, meaningful for \<open>dist \<le> size_\<close> only.
\<close>

definition InsertWithRealloc_try :: "'a elem_type \<Rightarrow> nat \<Rightarrow> 'a arg \<Rightarrow> rawmem \<Rightarrow> vector \<Rightarrow> 'a heap \<Rightarrow> unit outcome \<times> vector \<times> rawmem \<times> 'a heap" where
  "InsertWithRealloc_try T dist args new_data v h1 =
     (case emplace_construct T (ptr_add (GetAddress new_data) dist) args h1 of
        (Ok u, h2) \<Rightarrow>
          (case MoveDataIfPossibleOrCopyInstead T (GetAddress (m_data v)) dist (GetAddress new_data) h2 of
             (Ok u, h3) \<Rightarrow>
               (if m_size v < dist then (Fault, v, new_data, h3)
                else
                  (case MoveDataIfPossibleOrCopyInstead T (ptr_add (GetAddress (m_data v)) dist)
                          (m_size v - dist) (ptr_add (GetAddress new_data) (dist + 1)) h3 of
                     (Ok u, h4) \<Rightarrow>
                       (case destroy_n (GetAddress (m_data v)) (m_size v) h4 of
                          (Ok u, h5) \<Rightarrow>
                            (case RawMemory_Swap (m_data v) new_data of
                               (d, nd) \<Rightarrow> (Ok (), v\<lparr>m_data := d, m_size := m_size v + 1\<rparr>, nd, h5))
                        | (r, h5) \<Rightarrow> (r, v, new_data, h5))
                   | (r, h4) \<Rightarrow> (r, v, new_data, h4)))
           | (r, h3) \<Rightarrow> (r, v, new_data, h3))
      | (r, h2) \<Rightarrow> (r, v, new_data, h2))"

text \<open>
  \<^verbatim>\<open>InsertWithRealloc\<close>.  The handler applies \<^verbatim>\<open>std::destroy_at\<close> to the local
  \<^verbatim>\<open>new_data\<close>, that is, runs its destructor, and swallows the exception; the function
  then returns \<^verbatim>\<open>&data_[dist]\<close>, and leaving the function runs the destructor of
  \<^verbatim>\<open>new_data\<close> once more.
\<close>

definition InsertWithRealloc :: "'a elem_type \<Rightarrow> ptr \<Rightarrow> 'a arg \<Rightarrow> vector \<Rightarrow> 'a heap \<Rightarrow> ptr outcome \<times> vector \<times> 'a heap" where
  "InsertWithRealloc T pos args v h =
     (case distance (begin_v v) pos of
        None \<Rightarrow> (Fault, v, h)
      | Some dist \<Rightarrow>
          (case RawMemory_ctor T (if m_size v = 0 then 1 else (m_size v * 2) mod 2 ^ 64) h of
             (Ok new_data, h1) \<Rightarrow>
               (case InsertWithRealloc_try T dist args new_data v h1 of
                  (Ok u, v2, nd2, h2) \<Rightarrow>
                    (case RawMemory_dtor nd2 h2 of
                       (Ok u, h3) \<Rightarrow> (Ok (raw_plus (m_data v2) dist), v2, h3)
                     | (r, h3) \<Rightarrow> (rethrow r, v2, h3))
                | (Throw e, v2, nd2, h2) \<Rightarrow>
                    (case RawMemory_dtor nd2 h2 of
                       (Ok u, h3) \<Rightarrow>
                         (case RawMemory_dtor nd2 h3 of
                            (Ok u, h4) \<Rightarrow> (Ok (raw_plus (m_data v2) dist), v2, h4)
                          | (r, h4) \<Rightarrow> (rethrow r, v2, h4))
                     | (r, h3) \<Rightarrow> (rethrow r, v2, h3))
                | (Fault, v2, nd2, h2) \<Rightarrow> (Fault, v2, h2))
           | (r, h1) \<Rightarrow> (rethrow r, v, h1)))"

text \<open>
  \<^verbatim>\<open>InsertWithoutRealloc\<close>.  \<^verbatim>\<open>std::forward<T>(*(end() - 1))\<close> is an rvalue, so the last
  element is move-constructed into the slot at \<^verbatim>\<open>end()\<close>; \<^verbatim>\<open>*it = T(args...)\<close> builds a
  temporary from the arguments after the shift and move-assigns it.
\<close>

definition InsertWithoutRealloc :: "'a elem_type \<Rightarrow> ptr \<Rightarrow> 'a arg \<Rightarrow> vector \<Rightarrow> 'a heap \<Rightarrow> ptr outcome \<times> vector \<times> 'a heap" where
  "InsertWithoutRealloc T pos args v h =
     (case distance (begin_v v) pos of
        None \<Rightarrow> (Fault, v, h)
      | Some dist \<Rightarrow>
          (if pos = Null \<or> pos = end_v v then
             (case emplace_construct T (end_v v) args h of
                (Ok u, h1) \<Rightarrow> (Ok (raw_plus (m_data v) dist), v\<lparr>m_size := m_size v + 1\<rparr>, h1)
              | (r, h1) \<Rightarrow> (rethrow r, v, h1))
           else
             (case ptr_sub (end_v v) 1 of
                None \<Rightarrow> (Fault, v, h)
              | Some back \<Rightarrow>
                  (case move_construct T (end_v v) back h of
                     (Ok u, h1) \<Rightarrow>
                       (case move_backward T (raw_plus (m_data v) dist) back (end_v v) h1 of
                          (Ok u, h2) \<Rightarrow>
                            (case make_temp T args h2 of
                               (Ok x, h3) \<Rightarrow>
                                 (case assign T MoveAssign (raw_plus (m_data v) dist) x h3 of
                                    (Ok u, h4) \<Rightarrow>
                                      (Ok (raw_plus (m_data v) dist), v\<lparr>m_size := m_size v + 1\<rparr>, h4)
                                  | (r, h4) \<Rightarrow> (rethrow r, v, h4))
                             | (r, h3) \<Rightarrow> (rethrow r, v, h3))
                        | (r, h2) \<Rightarrow> (rethrow r, v, h2))
                   | (r, h1) \<Rightarrow> (rethrow r, v, h1)))))"

definition Emplace :: "'a elem_type \<Rightarrow> ptr \<Rightarrow> 'a arg \<Rightarrow> vector \<Rightarrow> 'a heap \<Rightarrow> ptr outcome \<times> vector \<times> 'a heap" where
  "Emplace T p args v h =
     (if m_size v = Capacity v then InsertWithRealloc T p args v h
      else InsertWithoutRealloc T p args v h)"

definition Insert :: "'a elem_type \<Rightarrow> ptr \<Rightarrow> 'a arg \<Rightarrow> vector \<Rightarrow> 'a heap \<Rightarrow> ptr outcome \<times> vector \<times> 'a heap" where
  "Insert T pos val v h = Emplace T pos val v h"

definition Erase :: "'a elem_type \<Rightarrow> ptr \<Rightarrow> vector \<Rightarrow> 'a heap \<Rightarrow> ptr outcome \<times> vector \<times> 'a heap" where
  "Erase T pos v h =
     (if begin_v v = end_v v then (Ok pos, v, h)
      else
        (case std_move T (ptr_add pos 1) (end_v v) pos h of
           (Ok u, h1) \<Rightarrow>
             (case PopBack v h1 of
                (Ok u, v1, h2) \<Rightarrow> (Ok pos, v1, h2)
              | (r, v1, h2) \<Rightarrow> (rethrow r, v1, h2))
         | (r, h1) \<Rightarrow> (rethrow r, v, h1)))"

section \<open>What a vector holds\<close>

text \<open>The values of the live objects that have one, among some slots, in order.\<close>

fun lives :: "'a slot list \<Rightarrow> 'a list" where
  "lives [] = []"
| "lives (Raw # ss) = lives ss"
| "lives (Indet # ss) = lives ss"
| "lives (Live x # ss) = x # lives ss"

text \<open>The element sequence of a vector: the objects in the first \<^verbatim>\<open>size_\<close> slots of its block.\<close>

definition elems :: "'a heap \<Rightarrow> vector \<Rightarrow> 'a list" where
  "elems h v =
     (case m_buffer (m_data v) of
        Null \<Rightarrow> []
      | Ptr a i \<Rightarrow> lives (take (m_size v) (drop i (slots (blocks h ! a)))))"

text \<open>
  The invariant of the data model: a vector of capacity zero owns no block; otherwise its
  buffer is the start of a block that was not released, the block has \<^verbatim>\<open>capacity_\<close>
  slots, the first \<^verbatim>\<open>size_\<close> of them hold live objects with a value and the others are
  raw.
\<close>

definition vec_inv :: "'a heap \<Rightarrow> vector \<Rightarrow> bool" where
  "vec_inv h v =
     (case m_buffer (m_data v) of
        Null \<Rightarrow> m_capacity (m_data v) = 0 \<and> m_size v = 0
      | Ptr a i \<Rightarrow>
          i = 0 \<and> a < length (blocks h) \<and> freed (blocks h ! a) = 0 \<and>
          0 < m_capacity (m_data v) \<and>
          m_size v \<le> m_capacity (m_data v) \<and> length (elems h v) = m_size v \<and>
          slots (blocks h ! a) = map Live (elems h v) @ replicate (m_capacity (m_data v) - m_size v) Raw)"


section \<open>Runs of appends\<close>

text \<open>A sequence of \<^verbatim>\<open>PushBack\<close> calls on one vector; it stops at the first that fails.\<close>

fun appends :: "'a elem_type \<Rightarrow> 'a arg list \<Rightarrow> vector \<Rightarrow> 'a heap \<Rightarrow> unit outcome \<times> vector \<times> 'a heap" where
  "appends T [] v h = (Ok (), v, h)"
| "appends T (x # xs) v h =
     (case PushBack T x v h of
        (Ok u, v1, h1) \<Rightarrow> appends T xs v1 h1
      | r \<Rightarrow> r)"

text \<open>
  The growth policy in the words of the specification: the capacity is 0 at first; an append
  to a vector whose size equals its capacity sets the capacity to \<open>max 1 (2 * capacity)\<close>,
  any other append leaves it.  \<open>spec_capacity n\<close> is the capacity after \<open>n\<close> appends.
\<close>

fun spec_capacity :: "nat \<Rightarrow> nat" where
  "spec_capacity 0 = 0"
| "spec_capacity (Suc n) =
     (if n = spec_capacity n then max 1 (2 * spec_capacity n) else spec_capacity n)"

section \<open>Auxiliary notions for the proofs\<close>

text \<open>The heap with the slots of block \<open>a\<close> replaced.\<close>

definition set_slots :: "nat \<Rightarrow> 'a slot list \<Rightarrow> 'a heap \<Rightarrow> 'a heap" where
  "set_slots a ss h = h\<lparr>blocks := (blocks h)[a := (blocks h ! a)\<lparr>slots := ss\<rparr>]\<rparr>"

text \<open>The heap after \<^verbatim>\<open>operator new\<close> has added a block of \<open>n\<close> raw slots.\<close>

definition alloc :: "nat \<Rightarrow> 'a heap \<Rightarrow> 'a heap" where
  "alloc n h = h\<lparr>blocks := blocks h @ [\<lparr>slots = replicate n Raw, freed = 0\<rparr>]\<rparr>"

text \<open>The heap after \<^verbatim>\<open>operator delete\<close> was applied to block \<open>a\<close>.\<close>

definition release :: "nat \<Rightarrow> 'a heap \<Rightarrow> 'a heap" where
  "release a h = h\<lparr>blocks := (blocks h)[a := (blocks h ! a)\<lparr>freed := Suc (freed (blocks h ! a))\<rparr>]\<rparr>"

text \<open>The value that constructor arguments denote in a heap, and the constructor they select.\<close>

fun arg_value :: "'a heap \<Rightarrow> 'a arg \<Rightarrow> 'a option" where
  "arg_value h (Val x) = Some x"
| "arg_value h (CRef p) = (case slot_at h p of Some (Live x) \<Rightarrow> Some x | _ \<Rightarrow> None)"
| "arg_value h (RRef p) = (case slot_at h p of Some (Live x) \<Rightarrow> Some x | _ \<Rightarrow> None)"

fun arg_kind :: "'a arg \<Rightarrow> opk" where
  "arg_kind (Val x) = ArgsCtor"
| "arg_kind (CRef p) = CopyCtor"
| "arg_kind (RRef p) = MoveCtor"

text \<open>Arguments whose use leaves every object in the heap as it is.\<close>

fun keeps_source :: "'a arg \<Rightarrow> bool" where
  "keeps_source (Val x) = True"
| "keeps_source (CRef p) = True"
| "keeps_source (RRef p) = False"

text \<open>The heap after the object that an rvalue argument refers to has been moved from.\<close>

fun taken :: "'a elem_type \<Rightarrow> 'a arg \<Rightarrow> 'a heap \<Rightarrow> 'a heap" where
  "taken T (RRef p) h =
     (case slot_at h p of Some (Live x) \<Rightarrow> put_slot p (Live (residue T x)) h | _ \<Rightarrow> h)"
| "taken T a h = h"

text \<open>The constructor that \<^verbatim>\<open>MoveDataIfPossibleOrCopyInstead\<close> applies to each element.\<close>

definition transfer_kind :: "'a elem_type \<Rightarrow> opk" where
  "transfer_kind T = (if nothrow_move T \<or> \<not> copyable T then MoveCtor else CopyCtor)"

text \<open>The element type whose constructor from arguments never throws, otherwise like \<open>T\<close>.\<close>

definition silent_args :: "'a elem_type \<Rightarrow> 'a elem_type" where
  "silent_args T = T\<lparr>throws := \<lambda>k t y. k \<noteq> ArgsCtor \<and> throws T k t y\<rparr>"

text \<open>The number of objects of \<open>T\<close> that fit into the block which \<^verbatim>\<open>Allocate(n)\<close> requests.\<close>

definition room :: "'a elem_type \<Rightarrow> nat \<Rightarrow> nat" where
  "room T n = ((n * sizeof T) mod 2 ^ 64) div sizeof T"

text \<open>Two vectors of one element each, in a heap of two blocks.\<close>

definition two_heap :: "nat heap" where
  "two_heap = \<lparr>blocks = [\<lparr>slots = [Live 1], freed = 0\<rparr>, \<lparr>slots = [Live 2], freed = 0\<rparr>],
               limit = 16, ticks = 0\<rparr>"

definition vec_at :: "nat \<Rightarrow> nat \<Rightarrow> nat \<Rightarrow> vector" where
  "vec_at a c n = \<lparr>m_data = \<lparr>m_buffer = Ptr a 0, m_capacity = c\<rparr>, m_size = n\<rparr>"

text \<open>A heap that holds one block, not released.\<close>

definition one_block :: "nat slot list \<Rightarrow> nat heap" where
  "one_block ss = \<lparr>blocks = [\<lparr>slots = ss, freed = 0\<rparr>], limit = 16, ticks = 0\<rparr>"

text \<open>A source vector \<open>[1, 2, 3]\<close> of capacity 4 in block 0, a target \<open>[7]\<close> of capacity 1 in block 1.\<close>

definition src_and_target :: "nat heap" where
  "src_and_target =
     \<lparr>blocks = [\<lparr>slots = [Live 1, Live 2, Live 3, Raw], freed = 0\<rparr>,
                \<lparr>slots = [Live 7], freed = 0\<rparr>], limit = 16, ticks = 0\<rparr>"

definition empty_heap :: "nat heap" where
  "empty_heap = \<lparr>blocks = [], limit = 16, ticks = 0\<rparr>"

text \<open>
  Element types over the natural numbers, of size 1 and with a default constructor that
  yields 0: one whose operations never throw and whose move constructor is
  \<^verbatim>\<open>noexcept\<close>; a copyable one whose copy constructor throws on the value \<open>y\<close>; and a
  move-only one whose move constructor throws on the value \<open>y\<close>.  A moved-from object of
  the last two holds 0.  \<open>long_type\<close> is like the first, of size 8 and trivially
  default-constructible.
\<close>

definition plain_type :: "nat elem_type" where
  "plain_type = \<lparr>sizeof = 1, nothrow_move = True, copyable = True, dflt = Some 0,
                 residue = (\<lambda>x. x), throws = (\<lambda>k t x. False)\<rparr>"

definition copy_fails_on :: "nat \<Rightarrow> nat elem_type" where
  "copy_fails_on y = \<lparr>sizeof = 1, nothrow_move = False, copyable = True, dflt = Some 0,
                      residue = (\<lambda>x. 0), throws = (\<lambda>k t x. k = CopyCtor \<and> x = y)\<rparr>"

definition move_only_fails_on :: "nat \<Rightarrow> nat elem_type" where
  "move_only_fails_on y = \<lparr>sizeof = 1, nothrow_move = False, copyable = False, dflt = Some 0,
                           residue = (\<lambda>x. 0), throws = (\<lambda>k t x. k = MoveCtor \<and> x = y)\<rparr>"

definition long_type :: "nat elem_type" where
  "long_type = \<lparr>sizeof = 8, nothrow_move = True, copyable = True, dflt = None,
                residue = (\<lambda>x. x), throws = (\<lambda>k t x. False)\<rparr>"

section \<open>Lemmas about the heap and the algorithms\<close>

lemma RawMemory_Swap_eq: "RawMemory_Swap m other = (other, m)"
  by (simp add: RawMemory_Swap_def)

lemma Swap_eq: "Swap v other = (other, v)"
  by (simp add: Swap_def RawMemory_Swap_eq)

lemma elems_Vector_default: "elems h Vector_default = []"
  by (simp add: elems_def Vector_default_def RawMemory_default_def)

lemma Vector_default_fields:
  "m_size Vector_default = 0" "m_capacity (m_data Vector_default) = 0"
  "m_buffer (m_data Vector_default) = Null"
  by (simp_all add: Vector_default_def RawMemory_default_def)

lemma vec_inv_default: "vec_inv h Vector_default"
  by (simp add: vec_inv_def Vector_default_def RawMemory_default_def)

lemma set_slots_simps [simp]:
  "limit (set_slots a ss h) = limit h"
  "ticks (set_slots a ss h) = ticks h"
  "length (blocks (set_slots a ss h)) = length (blocks h)"
  "set_slots a ss (h\<lparr>ticks := t\<rparr>) = (set_slots a ss h)\<lparr>ticks := t\<rparr>"
  by (simp_all add: set_slots_def)

lemma blocks_set_slots_same [simp]:
  "a < length (blocks h) \<Longrightarrow> slots (blocks (set_slots a ss h) ! a) = ss"
  "a < length (blocks h) \<Longrightarrow> freed (blocks (set_slots a ss h) ! a) = freed (blocks h ! a)"
  by (simp_all add: set_slots_def)

lemma blocks_set_slots_other [simp]:
  "a \<noteq> b \<Longrightarrow> blocks (set_slots a ss h) ! b = blocks h ! b"
  by (simp add: set_slots_def)

lemma set_slots_beyond:
  assumes "length (blocks h) \<le> a"
  shows "set_slots a ss h = h"
proof -
  have "(blocks h)[a := (blocks h ! a)\<lparr>slots := ss\<rparr>] = blocks h"
    using assms by (rule list_update_beyond)
  then show ?thesis by (simp add: set_slots_def)
qed

lemma set_slots_twice [simp]:
  "set_slots a ss (set_slots a ss' h) = set_slots a ss h"
proof (cases "a < length (blocks h)")
  case True
  then show ?thesis by (simp add: set_slots_def)
next
  case False
  then show ?thesis by (simp add: set_slots_beyond)
qed

lemma set_slots_id:
  "slots (blocks h ! a) = ss \<Longrightarrow> set_slots a ss h = h"
  by (auto simp add: set_slots_def)

lemma ticks_upd_simps [simp]:
  "blocks (h\<lparr>ticks := t\<rparr>) = blocks h"
  by simp

lemma slot_at_mid:
  assumes "a < length (blocks h)" "freed (blocks h ! a) = 0" "slots (blocks h ! a) = pre @ s # post"
  shows "slot_at h (Ptr a (length pre)) = Some s"
  using assms by simp

lemma put_slot_mid:
  assumes "slots (blocks h ! a) = pre @ s0 # post"
  shows "put_slot (Ptr a (length pre)) s h = set_slots a (pre @ s # post) h"
  using assms by (simp add: set_slots_def)

lemma construct_mid:
  assumes "a < length (blocks h)" "freed (blocks h ! a) = 0" "slots (blocks h ! a) = pre @ Raw # post"
  shows "construct T k (Ptr a (length pre)) x h =
     (if raises T k (ticks h) x then (Throw ElemExn, h\<lparr>ticks := Suc (ticks h)\<rparr>)
      else (Ok (), set_slots a (pre @ Live x # post) (h\<lparr>ticks := Suc (ticks h)\<rparr>)))"
  using assms by (simp add: construct_def tick_def set_slots_def)

lemma destroy_at_mid:
  assumes "a < length (blocks h)" "freed (blocks h ! a) = 0" "slots (blocks h ! a) = pre @ Live x # post"
  shows "destroy_at (Ptr a (length pre)) h = (Ok (), set_slots a (pre @ Raw # post) h)"
  using assms by (simp add: destroy_at_def set_slots_def)

lemma copy_construct_mid:
  assumes "a < length (blocks h)" "freed (blocks h ! a) = 0" "slots (blocks h ! a) = pa @ Live x # qa"
    and "b < length (blocks h)" "freed (blocks h ! b) = 0" "slots (blocks h ! b) = pb @ Raw # qb"
  shows "copy_construct T (Ptr b (length pb)) (Ptr a (length pa)) h =
     (if raises T CopyCtor (ticks h) x then (Throw ElemExn, h\<lparr>ticks := Suc (ticks h)\<rparr>)
      else (Ok (), set_slots b (pb @ Live x # qb) (h\<lparr>ticks := Suc (ticks h)\<rparr>)))"
  using assms(1-3) construct_mid[OF assms(4-6)] by (simp add: copy_construct_def)

lemma uninitialized_copy_n_cases:
  assumes "a < length (blocks h)" "freed (blocks h ! a) = 0" "slots (blocks h ! a) = pa @ map Live xs @ qa"
    and "b < length (blocks h)" "freed (blocks h ! b) = 0" "slots (blocks h ! b) = pb @ replicate (length xs) Raw @ qb"
    and "a \<noteq> b"
  shows "\<exists>t. uninitialized_copy_n T (Ptr a (length pa)) (length xs) (Ptr b (length pb)) h
              = (Ok (), set_slots b (pb @ map Live xs @ qb) (h\<lparr>ticks := t\<rparr>))
           \<or> uninitialized_copy_n T (Ptr a (length pa)) (length xs) (Ptr b (length pb)) h
              = (Throw ElemExn, h\<lparr>ticks := t\<rparr>) \<and> (\<exists>t'. \<exists>x\<in>set xs. raises T CopyCtor t' x)"
  using assms
proof (induction xs arbitrary: pa pb h)
  case Nil
  have "set_slots b (pb @ qb) (h\<lparr>ticks := ticks h\<rparr>) = h"
    using Nil.prems(6) by (simp add: set_slots_id)
  then show ?case by (intro exI[of _ "ticks h"]) simp
next
  case (Cons x xs)
  let ?h1 = "set_slots b (pb @ Live x # replicate (length xs) Raw @ qb) (h\<lparr>ticks := Suc (ticks h)\<rparr>)"
  have cc: "copy_construct T (Ptr b (length pb)) (Ptr a (length pa)) h =
     (if raises T CopyCtor (ticks h) x then (Throw ElemExn, h\<lparr>ticks := Suc (ticks h)\<rparr>)
      else (Ok (), ?h1))"
    using copy_construct_mid[of a h pa x "map Live xs @ qa" b pb "replicate (length xs) Raw @ qb" T] Cons.prems
    by simp
  show ?case
  proof (cases "raises T CopyCtor (ticks h) x")
    case True
    then have "\<exists>t'. \<exists>y\<in>set (x # xs). raises T CopyCtor t' y" by auto
    then show ?thesis using cc True by (intro exI[of _ "Suc (ticks h)"]) simp
  next
    case False
    have p1: "a < length (blocks ?h1)" "freed (blocks ?h1 ! a) = 0"
      "slots (blocks ?h1 ! a) = (pa @ [Live x]) @ map Live xs @ qa"
      "b < length (blocks ?h1)" "freed (blocks ?h1 ! b) = 0"
      "slots (blocks ?h1 ! b) = (pb @ [Live x]) @ replicate (length xs) Raw @ qb"
      using Cons.prems by simp_all
    from Cons.IH[OF p1 \<open>a \<noteq> b\<close>] obtain t where
      t: "uninitialized_copy_n T (Ptr a (Suc (length pa))) (length xs) (Ptr b (Suc (length pb))) ?h1
              = (Ok (), set_slots b ((pb @ [Live x]) @ map Live xs @ qb) (?h1\<lparr>ticks := t\<rparr>))
           \<or> uninitialized_copy_n T (Ptr a (Suc (length pa))) (length xs) (Ptr b (Suc (length pb))) ?h1
              = (Throw ElemExn, ?h1\<lparr>ticks := t\<rparr>) \<and> (\<exists>t'. \<exists>x\<in>set xs. raises T CopyCtor t' x)"
      by auto
    have d: "destroy_at (Ptr b (length pb)) (?h1\<lparr>ticks := t\<rparr>) = (Ok (), h\<lparr>ticks := t\<rparr>)"
    proof -
      have "destroy_at (Ptr b (length pb)) (?h1\<lparr>ticks := t\<rparr>) =
          (Ok (), set_slots b (pb @ Raw # replicate (length xs) Raw @ qb) (?h1\<lparr>ticks := t\<rparr>))"
        using Cons.prems by (intro destroy_at_mid) simp_all
      moreover have "set_slots b (pb @ Raw # replicate (length xs) Raw @ qb) (h\<lparr>ticks := t\<rparr>) = h\<lparr>ticks := t\<rparr>"
        using Cons.prems(6) by (intro set_slots_id) simp
      ultimately show ?thesis by simp
    qed
    from t show ?thesis
    proof
      assume "uninitialized_copy_n T (Ptr a (Suc (length pa))) (length xs) (Ptr b (Suc (length pb))) ?h1
              = (Ok (), set_slots b ((pb @ [Live x]) @ map Live xs @ qb) (?h1\<lparr>ticks := t\<rparr>))"
      then show ?thesis using cc False by (intro exI[of _ t]) simp
    next
      assume th: "uninitialized_copy_n T (Ptr a (Suc (length pa))) (length xs) (Ptr b (Suc (length pb))) ?h1
              = (Throw ElemExn, ?h1\<lparr>ticks := t\<rparr>) \<and> (\<exists>t'. \<exists>x\<in>set xs. raises T CopyCtor t' x)"
      then have "\<exists>t'. \<exists>y\<in>set (x # xs). raises T CopyCtor t' y" by auto
      then show ?thesis using th cc False d by (intro exI[of _ t]) simp
    qed
  qed
qed


lemma set_slots_commute:
  "a \<noteq> b \<Longrightarrow> set_slots a sa (set_slots b sb h) = set_slots b sb (set_slots a sa h)"
  by (simp add: set_slots_def list_update_swap)

lemma set_slots_absorb [simp]:
  assumes "a \<noteq> b"
  shows "set_slots a sa (set_slots b sb (set_slots a sa' h)) = set_slots a sa (set_slots b sb h)"
proof -
  have "set_slots b sb (set_slots a sa' h) = set_slots a sa' (set_slots b sb h)"
    using assms by (simp add: set_slots_commute)
  then show ?thesis by simp
qed

lemma move_construct_mid:
  assumes "a < length (blocks h)" "freed (blocks h ! a) = 0" "slots (blocks h ! a) = pa @ Live x # qa"
    and "b < length (blocks h)" "freed (blocks h ! b) = 0" "slots (blocks h ! b) = pb @ Raw # qb"
    and "a \<noteq> b"
  shows "move_construct T (Ptr b (length pb)) (Ptr a (length pa)) h =
     (if raises T MoveCtor (ticks h) x then (Throw ElemExn, h\<lparr>ticks := Suc (ticks h)\<rparr>)
      else (Ok (), set_slots a (pa @ Live (residue T x) # qa)
                     (set_slots b (pb @ Live x # qb) (h\<lparr>ticks := Suc (ticks h)\<rparr>))))"
proof -
  let ?h1 = "set_slots b (pb @ Live x # qb) (h\<lparr>ticks := Suc (ticks h)\<rparr>)"
  have "slots (blocks ?h1 ! a) = pa @ Live x # qa"
    using assms by simp
  then have "put_slot (Ptr a (length pa)) (Live (residue T x)) ?h1
      = set_slots a (pa @ Live (residue T x) # qa) ?h1"
    by (rule put_slot_mid)
  then show ?thesis
    using assms(1-3) construct_mid[OF assms(4-6), of T MoveCtor x]
    by (simp add: move_construct_def)
qed

lemma uninitialized_move_n_cases:
  assumes "a < length (blocks h)" "freed (blocks h ! a) = 0" "slots (blocks h ! a) = pa @ map Live xs @ qa"
    and "b < length (blocks h)" "freed (blocks h ! b) = 0" "slots (blocks h ! b) = pb @ replicate (length xs) Raw @ qb"
    and "a \<noteq> b"
  shows "\<exists>t. uninitialized_move_n T (Ptr a (length pa)) (length xs) (Ptr b (length pb)) h
              = (Ok (), set_slots a (pa @ map Live (map (residue T) xs) @ qa)
                          (set_slots b (pb @ map Live xs @ qb) (h\<lparr>ticks := t\<rparr>)))
           \<or> (\<not> nothrow_move T \<and> (\<exists>t'. \<exists>x\<in>set xs. raises T MoveCtor t' x) \<and>
              (\<exists>zs. length zs = length xs \<and>
                uninitialized_move_n T (Ptr a (length pa)) (length xs) (Ptr b (length pb)) h
                  = (Throw ElemExn, set_slots a (pa @ map Live zs @ qa) (h\<lparr>ticks := t\<rparr>))))"
  using assms
proof (induction xs arbitrary: pa pb h)
  case Nil
  have "set_slots a (pa @ qa) (set_slots b (pb @ qb) (h\<lparr>ticks := ticks h\<rparr>)) = h"
    using Nil.prems(3,6,7) by (simp add: set_slots_id)
  then show ?case by (intro exI[of _ "ticks h"]) simp
next
  case (Cons x xs)
  let ?B1 = "pb @ Live x # replicate (length xs) Raw @ qb"
  let ?A1 = "pa @ Live (residue T x) # map Live xs @ qa"
  let ?h1 = "set_slots a ?A1 (set_slots b ?B1 (h\<lparr>ticks := Suc (ticks h)\<rparr>))"
  have mc: "move_construct T (Ptr b (length pb)) (Ptr a (length pa)) h =
     (if raises T MoveCtor (ticks h) x then (Throw ElemExn, h\<lparr>ticks := Suc (ticks h)\<rparr>)
      else (Ok (), ?h1))"
    using move_construct_mid[of a h pa x "map Live xs @ qa" b pb "replicate (length xs) Raw @ qb" T] Cons.prems
    by simp
  show ?case
  proof (cases "raises T MoveCtor (ticks h) x")
    case True
    then have nt: "\<not> nothrow_move T" by (simp add: raises_def)
    from True have rs: "\<exists>t'. \<exists>y\<in>set (x # xs). raises T MoveCtor t' y" by auto
    have "set_slots a (pa @ map Live (x # xs) @ qa) (h\<lparr>ticks := Suc (ticks h)\<rparr>) = h\<lparr>ticks := Suc (ticks h)\<rparr>"
      using Cons.prems(3) by (intro set_slots_id) simp
    then have "uninitialized_move_n T (Ptr a (length pa)) (length (x # xs)) (Ptr b (length pb)) h
                  = (Throw ElemExn, set_slots a (pa @ map Live (x # xs) @ qa) (h\<lparr>ticks := Suc (ticks h)\<rparr>))"
      using mc True by simp
    then have "\<not> nothrow_move T \<and> (\<exists>t'. \<exists>y\<in>set (x # xs). raises T MoveCtor t' y) \<and>
              (\<exists>zs. length zs = length (x # xs) \<and>
                uninitialized_move_n T (Ptr a (length pa)) (length (x # xs)) (Ptr b (length pb)) h
                  = (Throw ElemExn, set_slots a (pa @ map Live zs @ qa) (h\<lparr>ticks := Suc (ticks h)\<rparr>)))"
      using nt rs by (intro conjI exI[of _ "x # xs"]) simp_all
    then show ?thesis by (intro exI[of _ "Suc (ticks h)"] disjI2)
  next
    case False
    have p1: "a < length (blocks ?h1)" "freed (blocks ?h1 ! a) = 0"
      "slots (blocks ?h1 ! a) = (pa @ [Live (residue T x)]) @ map Live xs @ qa"
      "b < length (blocks ?h1)" "freed (blocks ?h1 ! b) = 0"
      "slots (blocks ?h1 ! b) = (pb @ [Live x]) @ replicate (length xs) Raw @ qb"
      using Cons.prems by simp_all
    from Cons.IH[OF p1 \<open>a \<noteq> b\<close>] obtain t where
      t: "uninitialized_move_n T (Ptr a (Suc (length pa))) (length xs) (Ptr b (Suc (length pb))) ?h1
              = (Ok (), set_slots a ((pa @ [Live (residue T x)]) @ map Live (map (residue T) xs) @ qa)
                          (set_slots b ((pb @ [Live x]) @ map Live xs @ qb) (?h1\<lparr>ticks := t\<rparr>)))
           \<or> (\<not> nothrow_move T \<and> (\<exists>t'. \<exists>x\<in>set xs. raises T MoveCtor t' x) \<and>
              (\<exists>zs. length zs = length xs \<and>
                uninitialized_move_n T (Ptr a (Suc (length pa))) (length xs) (Ptr b (Suc (length pb))) ?h1
                  = (Throw ElemExn, set_slots a ((pa @ [Live (residue T x)]) @ map Live zs @ qa) (?h1\<lparr>ticks := t\<rparr>))))"
      by auto
    from t show ?thesis
    proof
      assume ok: "uninitialized_move_n T (Ptr a (Suc (length pa))) (length xs) (Ptr b (Suc (length pb))) ?h1
              = (Ok (), set_slots a ((pa @ [Live (residue T x)]) @ map Live (map (residue T) xs) @ qa)
                          (set_slots b ((pb @ [Live x]) @ map Live xs @ qb) (?h1\<lparr>ticks := t\<rparr>)))"
      have "set_slots a (pa @ Live (residue T x) # map (Live \<circ> residue T) xs @ qa)
              (set_slots b (pb @ Live x # map Live xs @ qb) (?h1\<lparr>ticks := t\<rparr>))
          = set_slots a (pa @ Live (residue T x) # map (Live \<circ> residue T) xs @ qa)
              (set_slots b (pb @ Live x # map Live xs @ qb) (h\<lparr>ticks := t\<rparr>))"
        using \<open>a \<noteq> b\<close> by simp
      then show ?thesis using mc False ok by (intro exI[of _ t] disjI1) simp
    next
      assume "\<not> nothrow_move T \<and> (\<exists>t'. \<exists>x\<in>set xs. raises T MoveCtor t' x) \<and>
              (\<exists>zs. length zs = length xs \<and>
                uninitialized_move_n T (Ptr a (Suc (length pa))) (length xs) (Ptr b (Suc (length pb))) ?h1
                  = (Throw ElemExn, set_slots a ((pa @ [Live (residue T x)]) @ map Live zs @ qa) (?h1\<lparr>ticks := t\<rparr>)))"
      then obtain zs where nt: "\<not> nothrow_move T" and zs: "length zs = length xs"
        and rs0: "\<exists>t'. \<exists>x\<in>set xs. raises T MoveCtor t' x"
        and th: "uninitialized_move_n T (Ptr a (Suc (length pa))) (length xs) (Ptr b (Suc (length pb))) ?h1
                  = (Throw ElemExn, set_slots a ((pa @ [Live (residue T x)]) @ map Live zs @ qa) (?h1\<lparr>ticks := t\<rparr>))"
        by blast
      let ?Z = "pa @ Live (residue T x) # map Live zs @ qa"
      let ?h2 = "set_slots a ?Z (set_slots b ?B1 (h\<lparr>ticks := t\<rparr>))"
      have h2: "set_slots a ((pa @ [Live (residue T x)]) @ map Live zs @ qa) (?h1\<lparr>ticks := t\<rparr>) = ?h2"
        by simp
      have "destroy_at (Ptr b (length pb)) ?h2
          = (Ok (), set_slots b (pb @ Raw # replicate (length xs) Raw @ qb) ?h2)"
        using Cons.prems by (intro destroy_at_mid) simp_all
      moreover have "set_slots b (pb @ Raw # replicate (length xs) Raw @ qb) ?h2
           = set_slots b (pb @ Raw # replicate (length xs) Raw @ qb) (set_slots a ?Z (h\<lparr>ticks := t\<rparr>))"
        using \<open>a \<noteq> b\<close> set_slots_absorb[of b a] by simp
      moreover have "set_slots b (pb @ Raw # replicate (length xs) Raw @ qb) (set_slots a ?Z (h\<lparr>ticks := t\<rparr>))
           = set_slots a ?Z (h\<lparr>ticks := t\<rparr>)"
        using Cons.prems(6,7) by (intro set_slots_id) simp
      ultimately have d: "destroy_at (Ptr b (length pb)) ?h2 = (Ok (), set_slots a ?Z (h\<lparr>ticks := t\<rparr>))"
        by simp
      from rs0 have rs: "\<exists>t'. \<exists>y\<in>set (x # xs). raises T MoveCtor t' y" by auto
      have "uninitialized_move_n T (Ptr a (length pa)) (length (x # xs)) (Ptr b (length pb)) h
           = (Throw ElemExn, set_slots a (pa @ map Live (residue T x # zs) @ qa) (h\<lparr>ticks := t\<rparr>))"
        using mc False th h2 d by simp
      then have "\<not> nothrow_move T \<and> (\<exists>t'. \<exists>y\<in>set (x # xs). raises T MoveCtor t' y) \<and>
              (\<exists>zs. length zs = length (x # xs) \<and>
                uninitialized_move_n T (Ptr a (length pa)) (length (x # xs)) (Ptr b (length pb)) h
                  = (Throw ElemExn, set_slots a (pa @ map Live zs @ qa) (h\<lparr>ticks := t\<rparr>)))"
        using nt zs rs by (intro conjI exI[of _ "residue T x # zs"]) simp_all
      then show ?thesis by (intro exI[of _ t] disjI2)
    qed
  qed
qed

lemma destroy_n_mid:
  assumes "a < length (blocks h)" "freed (blocks h ! a) = 0" "slots (blocks h ! a) = pre @ map Live xs @ post"
  shows "destroy_n (Ptr a (length pre)) (length xs) h
     = (Ok (), set_slots a (pre @ replicate (length xs) Raw @ post) h)"
  using assms
proof (induction xs arbitrary: pre h)
  case Nil
  then show ?case by (simp add: set_slots_id)
next
  case (Cons x xs)
  let ?h1 = "set_slots a (pre @ Raw # map Live xs @ post) h"
  have d: "destroy_at (Ptr a (length pre)) h = (Ok (), ?h1)"
    using Cons.prems by (intro destroy_at_mid) simp_all
  have "destroy_n (Ptr a (length (pre @ [Raw]))) (length xs) ?h1
     = (Ok (), set_slots a ((pre @ [Raw]) @ replicate (length xs) Raw @ post) ?h1)"
    using Cons.prems by (intro Cons.IH) simp_all
  then show ?case using d by simp
qed

lemma uninitialized_default_construct_n_cases:
  assumes "b < length (blocks h)" "freed (blocks h ! b) = 0" "slots (blocks h ! b) = pb @ replicate n Raw @ qb"
    and "dflt T = Some d"
  shows "\<exists>t. uninitialized_default_construct_n T (Ptr b (length pb)) n h
              = (Ok (), set_slots b (pb @ replicate n (Live d) @ qb) (h\<lparr>ticks := t\<rparr>))
           \<or> uninitialized_default_construct_n T (Ptr b (length pb)) n h
              = (Throw ElemExn, h\<lparr>ticks := t\<rparr>) \<and> (\<exists>t'. raises T DefaultCtor t' d)"
  using assms(1-3)
proof (induction n arbitrary: pb h)
  case 0
  have "set_slots b (pb @ qb) (h\<lparr>ticks := ticks h\<rparr>) = h"
    using "0.prems"(3) by (simp add: set_slots_id)
  then show ?case by (intro exI[of _ "ticks h"]) simp
next
  case (Suc n)
  let ?h1 = "set_slots b (pb @ Live d # replicate n Raw @ qb) (h\<lparr>ticks := Suc (ticks h)\<rparr>)"
  have cc: "default_construct T (Ptr b (length pb)) h =
     (if raises T DefaultCtor (ticks h) d then (Throw ElemExn, h\<lparr>ticks := Suc (ticks h)\<rparr>)
      else (Ok (), ?h1))"
    using construct_mid[of b h pb "replicate n Raw @ qb" T DefaultCtor d] Suc.prems assms(4)
    by (simp add: default_construct_def)
  show ?case
  proof (cases "raises T DefaultCtor (ticks h) d")
    case True
    then have "\<exists>t'. raises T DefaultCtor t' d" by blast
    then show ?thesis using cc True by (intro exI[of _ "Suc (ticks h)"]) simp
  next
    case False
    have p1: "b < length (blocks ?h1)" "freed (blocks ?h1 ! b) = 0"
      "slots (blocks ?h1 ! b) = (pb @ [Live d]) @ replicate n Raw @ qb"
      using Suc.prems by simp_all
    from Suc.IH[OF p1] obtain t where
      t: "uninitialized_default_construct_n T (Ptr b (Suc (length pb))) n ?h1
              = (Ok (), set_slots b ((pb @ [Live d]) @ replicate n (Live d) @ qb) (?h1\<lparr>ticks := t\<rparr>))
           \<or> uninitialized_default_construct_n T (Ptr b (Suc (length pb))) n ?h1
              = (Throw ElemExn, ?h1\<lparr>ticks := t\<rparr>) \<and> (\<exists>t'. raises T DefaultCtor t' d)"
      by auto
    have d: "destroy_at (Ptr b (length pb)) (?h1\<lparr>ticks := t\<rparr>) = (Ok (), h\<lparr>ticks := t\<rparr>)"
    proof -
      have "destroy_at (Ptr b (length pb)) (?h1\<lparr>ticks := t\<rparr>) =
          (Ok (), set_slots b (pb @ Raw # replicate n Raw @ qb) (?h1\<lparr>ticks := t\<rparr>))"
        using Suc.prems by (intro destroy_at_mid) simp_all
      moreover have "set_slots b (pb @ Raw # replicate n Raw @ qb) (h\<lparr>ticks := t\<rparr>) = h\<lparr>ticks := t\<rparr>"
        using Suc.prems(3) by (intro set_slots_id) simp
      ultimately show ?thesis by simp
    qed
    from t show ?thesis
    proof
      assume "uninitialized_default_construct_n T (Ptr b (Suc (length pb))) n ?h1
              = (Ok (), set_slots b ((pb @ [Live d]) @ replicate n (Live d) @ qb) (?h1\<lparr>ticks := t\<rparr>))"
      then show ?thesis using cc False by (intro exI[of _ t]) simp
    next
      assume "uninitialized_default_construct_n T (Ptr b (Suc (length pb))) n ?h1
              = (Throw ElemExn, ?h1\<lparr>ticks := t\<rparr>) \<and> (\<exists>t'. raises T DefaultCtor t' d)"
      then show ?thesis using cc False d by (intro exI[of _ t]) simp
    qed
  qed
qed

text \<open>Default-initialisation of objects of a trivially default-constructible type.\<close>

lemma uninitialized_default_construct_n_trivial:
  assumes "b < length (blocks h)" "freed (blocks h ! b) = 0" "slots (blocks h ! b) = pb @ replicate n Raw @ qb"
    and "dflt T = None"
  shows "uninitialized_default_construct_n T (Ptr b (length pb)) n h
              = (Ok (), set_slots b (pb @ replicate n Indet @ qb) h)"
  using assms(1-3)
proof (induction n arbitrary: pb h)
  case 0
  then show ?case by (simp add: set_slots_id)
next
  case (Suc n)
  let ?h1 = "set_slots b (pb @ Indet # replicate n Raw @ qb) h"
  have sl: "slots (blocks h ! b) = pb @ Raw # replicate n Raw @ qb" using Suc.prems(3) by simp
  have cc: "default_construct T (Ptr b (length pb)) h = (Ok (), ?h1)"
    using Suc.prems(1,2) sl assms(4) put_slot_mid[OF sl, of Indet]
    by (simp add: default_construct_def del: put_slot.simps)
  have p1: "b < length (blocks ?h1)" "freed (blocks ?h1 ! b) = 0"
    "slots (blocks ?h1 ! b) = (pb @ [Indet]) @ replicate n Raw @ qb"
    using Suc.prems by simp_all
  from Suc.IH[OF p1] cc show ?case by simp
qed

lemma alloc_simps [simp]:
  "limit (alloc n h) = limit h"
  "ticks (alloc n h) = ticks h"
  "length (blocks (alloc n h)) = Suc (length (blocks h))"
  "alloc n (h\<lparr>ticks := t\<rparr>) = (alloc n h)\<lparr>ticks := t\<rparr>"
  "blocks (alloc n h) ! length (blocks h) = \<lparr>slots = replicate n Raw, freed = 0\<rparr>"
  by (simp_all add: alloc_def)

lemma blocks_alloc_old [simp]:
  "a < length (blocks h) \<Longrightarrow> blocks (alloc n h) ! a = blocks h ! a"
  by (simp add: alloc_def nth_append)

lemma release_simps [simp]:
  "limit (release a h) = limit h"
  "ticks (release a h) = ticks h"
  "length (blocks (release a h)) = length (blocks h)"
  "release a (h\<lparr>ticks := t\<rparr>) = (release a h)\<lparr>ticks := t\<rparr>"
  by (simp_all add: release_def)

lemma blocks_release_same [simp]:
  "a < length (blocks h) \<Longrightarrow> slots (blocks (release a h) ! a) = slots (blocks h ! a)"
  "a < length (blocks h) \<Longrightarrow> freed (blocks (release a h) ! a) = Suc (freed (blocks h ! a))"
  by (simp_all add: release_def)

lemma blocks_release_other [simp]:
  "a \<noteq> b \<Longrightarrow> blocks (release a h) ! b = blocks h ! b"
  by (simp add: release_def)

lemma doubled_no_wrap:
  fixes s :: nat
  assumes "s < (s * 2) mod 2 ^ 64"
  shows "(s * 2) mod 2 ^ 64 = s * 2"
proof (cases "s * 2 < 2 ^ 64")
  case True
  then show ?thesis by simp
next
  case False
  have "(s * 2) mod 2 ^ 64 < (2 ^ 64 :: nat)" by simp
  then have s: "s < 2 ^ 64" using assms by linarith
  have "(s * 2) mod 2 ^ 64 = (s * 2 - 2 ^ 64) mod 2 ^ 64"
    using False by (intro le_mod_geq) simp
  also have "\<dots> = s * 2 - 2 ^ 64" using s by (intro mod_less) linarith
  finally show ?thesis using assms s by linarith
qed

lemma RawMemory_ctor_eq:
  "RawMemory_ctor T n h =
     (if n = 0 then (Ok \<lparr>m_buffer = Null, m_capacity = 0\<rparr>, h)
      else if limit h < (n * sizeof T) mod 2 ^ 64 then (Throw BadAlloc, h)
      else (Ok \<lparr>m_buffer = Ptr (length (blocks h)) 0, m_capacity = n\<rparr>, alloc (room T n) h))"
  by (simp add: RawMemory_ctor_def Allocate_def operator_new_def alloc_def room_def)

text \<open>A request that does not wrap gets a block with room for exactly \<open>n\<close> objects.\<close>

lemma room_exact:
  assumes "0 < sizeof T" "n * sizeof T < 2 ^ 64"
  shows "room T n = n" "(n * sizeof T) mod 2 ^ 64 = n * sizeof T"
  using assms by (simp_all add: room_def)

lemma RawMemory_ctor_exact:
  assumes "0 < sizeof T" "n * sizeof T < 2 ^ 64"
  shows "RawMemory_ctor T n h =
     (if n = 0 then (Ok \<lparr>m_buffer = Null, m_capacity = 0\<rparr>, h)
      else if limit h < n * sizeof T then (Throw BadAlloc, h)
      else (Ok \<lparr>m_buffer = Ptr (length (blocks h)) 0, m_capacity = n\<rparr>, alloc n h))"
  using room_exact[OF assms] by (simp add: RawMemory_ctor_eq)

text \<open>
  A block that has room for more than \<open>s\<close> objects although twice \<open>s\<close> objects were
  requested has room for all of them: neither product has wrapped.
\<close>

lemma room_doubled:
  assumes "s < room T ((s * 2) mod 2 ^ 64)"
  shows "(s * 2) mod 2 ^ 64 = s * 2" "room T (s * 2) = s * 2" "0 < sizeof T" "s * 2 * sizeof T < 2 ^ 64"
proof -
  let ?n = "(s * 2) mod 2 ^ 64"
  let ?z = "sizeof T"
  show z: "0 < ?z"
  proof (rule ccontr)
    assume "\<not> 0 < ?z"
    then have "room T ?n = 0" by (simp add: room_def)
    then show False using assms by simp
  qed
  have "room T ?n \<le> (?n * ?z) div ?z"
    unfolding room_def by (intro div_le_mono) simp
  then have "room T ?n \<le> ?n" using z by simp
  then have "s < ?n" using assms by linarith
  then show n: "?n = s * 2" by (rule doubled_no_wrap)
  let ?k = "s * ?z"
  have "Suc s \<le> ((s * 2 * ?z) mod 2 ^ 64) div ?z"
    using assms n by (simp add: room_def)
  then have "Suc s * ?z \<le> (s * 2 * ?z) mod 2 ^ 64"
    using z by (simp add: less_eq_div_iff_mult_less_eq)
  moreover have "s * 2 * ?z = ?k * 2" by simp
  ultimately have "?k < (?k * 2) mod 2 ^ 64" using z by simp
  then have "(?k * 2) mod 2 ^ 64 = ?k * 2" by (rule doubled_no_wrap)
  moreover have "(?k * 2) mod 2 ^ 64 < (2 ^ 64 :: nat)" by simp
  ultimately have "?k * 2 < 2 ^ 64" by simp
  then show b: "s * 2 * ?z < 2 ^ 64" by (simp add: mult.commute mult.left_commute)
  show "room T (s * 2) = s * 2" using room_exact(1)[OF z b] .
qed

lemma room_one:
  assumes "0 < room T 1"
  shows "room T 1 = 1" "0 < sizeof T" "sizeof T < 2 ^ 64"
proof -
  let ?z = "sizeof T"
  show z: "0 < ?z"
  proof (rule ccontr)
    assume "\<not> 0 < ?z"
    then have "room T 1 = 0" by (simp add: room_def)
    then show False using assms by simp
  qed
  have "Suc 0 \<le> (?z mod 2 ^ 64) div ?z" using assms by (simp add: room_def)
  then have "?z \<le> ?z mod 2 ^ 64" using z by (simp add: less_eq_div_iff_mult_less_eq)
  moreover have "?z mod 2 ^ 64 < (2 ^ 64 :: nat)" by simp
  ultimately show b: "?z < 2 ^ 64" by linarith
  show "room T 1 = 1" using room_exact(1)[OF z, of 1] b by simp
qed

lemma RawMemory_dtor_Null:
  "m_buffer m = Null \<Longrightarrow> RawMemory_dtor m h = (Ok (), h)"
  by (simp add: RawMemory_dtor_def Deallocate_def operator_delete_def)

lemma RawMemory_dtor_Ptr:
  "m_buffer m = Ptr a 0 \<Longrightarrow> a < length (blocks h) \<Longrightarrow>
   RawMemory_dtor m h = (if freed (blocks h ! a) = 0 then Ok () else Fault, release a h)"
  by (simp add: RawMemory_dtor_def Deallocate_def operator_delete_def release_def)

lemma lives_map_Live [simp]: "lives (map Live xs @ ss) = xs @ lives ss"
  by (induction xs) simp_all

lemma lives_map_Live' [simp]: "lives (map Live xs) = xs"
  using lives_map_Live[of xs "[]"] by simp

lemma lives_replicate_Raw [simp]: "lives (replicate n Raw) = []"
  by (induction n) simp_all

lemma vec_inv_NullD:
  assumes "vec_inv h v" "m_buffer (m_data v) = Null"
  shows "m_capacity (m_data v) = 0" "m_size v = 0" "elems h v = []"
  using assms by (simp_all add: vec_inv_def elems_def)

lemma vec_inv_PtrD:
  assumes "vec_inv h v" "m_buffer (m_data v) = Ptr a i"
  shows "i = 0" "a < length (blocks h)" "freed (blocks h ! a) = 0"
    "0 < m_capacity (m_data v)"
    "m_size v \<le> m_capacity (m_data v)" "length (elems h v) = m_size v"
    "slots (blocks h ! a) = map Live (elems h v) @ replicate (m_capacity (m_data v) - m_size v) Raw"
  using assms by (simp_all add: vec_inv_def)

lemma elems_block:
  assumes "m_buffer (m_data v) = Ptr a 0" "slots (blocks h ! a) = map Live xs @ ss" "m_size v = length xs"
  shows "elems h v = xs"
  using assms by (simp add: elems_def)

lemma vec_invI:
  assumes "m_buffer (m_data v) = Ptr a 0" "a < length (blocks h)" "freed (blocks h ! a) = 0"
    "0 < m_capacity (m_data v)"
    "m_size v = length xs" "length xs \<le> m_capacity (m_data v)"
    "slots (blocks h ! a) = map Live xs @ replicate (m_capacity (m_data v) - length xs) Raw"
  shows "vec_inv h v"
  using assms elems_block[OF assms(1) assms(7) assms(5)] by (simp add: vec_inv_def)

lemma MoveData_cases:
  assumes "a < length (blocks h)" "freed (blocks h ! a) = 0" "slots (blocks h ! a) = pa @ map Live xs @ qa"
    and "b < length (blocks h)" "freed (blocks h ! b) = 0" "slots (blocks h ! b) = pb @ replicate (length xs) Raw @ qb"
    and "a \<noteq> b"
  shows "\<exists>t zs. length zs = length xs \<and>
      (MoveDataIfPossibleOrCopyInstead T (Ptr a (length pa)) (length xs) (Ptr b (length pb)) h
         = (Ok (), set_slots a (pa @ map Live zs @ qa) (set_slots b (pb @ map Live xs @ qb) (h\<lparr>ticks := t\<rparr>)))
       \<or> (\<not> nothrow_move T \<and> (copyable T \<longrightarrow> zs = xs) \<and>
          (\<exists>t'. \<exists>x\<in>set xs. raises T (transfer_kind T) t' x) \<and>
          MoveDataIfPossibleOrCopyInstead T (Ptr a (length pa)) (length xs) (Ptr b (length pb)) h
         = (Throw ElemExn, set_slots a (pa @ map Live zs @ qa) (h\<lparr>ticks := t\<rparr>))))"
proof (cases "nothrow_move T \<or> \<not> copyable T")
  case True
  then have tk: "transfer_kind T = MoveCtor" by (simp add: transfer_kind_def)
  from uninitialized_move_n_cases[OF assms, of T] obtain t where
    "uninitialized_move_n T (Ptr a (length pa)) (length xs) (Ptr b (length pb)) h
              = (Ok (), set_slots a (pa @ map Live (map (residue T) xs) @ qa)
                          (set_slots b (pb @ map Live xs @ qb) (h\<lparr>ticks := t\<rparr>)))
           \<or> (\<not> nothrow_move T \<and> (\<exists>t'. \<exists>x\<in>set xs. raises T MoveCtor t' x) \<and>
              (\<exists>zs. length zs = length xs \<and>
                uninitialized_move_n T (Ptr a (length pa)) (length xs) (Ptr b (length pb)) h
                  = (Throw ElemExn, set_slots a (pa @ map Live zs @ qa) (h\<lparr>ticks := t\<rparr>))))"
    by blast
  then show ?thesis
  proof
    assume "uninitialized_move_n T (Ptr a (length pa)) (length xs) (Ptr b (length pb)) h
              = (Ok (), set_slots a (pa @ map Live (map (residue T) xs) @ qa)
                          (set_slots b (pb @ map Live xs @ qb) (h\<lparr>ticks := t\<rparr>)))"
    then show ?thesis using True
      by (intro exI[of _ t] exI[of _ "map (residue T) xs"])
         (simp add: MoveDataIfPossibleOrCopyInstead_def)
  next
    assume "\<not> nothrow_move T \<and> (\<exists>t'. \<exists>x\<in>set xs. raises T MoveCtor t' x) \<and>
              (\<exists>zs. length zs = length xs \<and>
                uninitialized_move_n T (Ptr a (length pa)) (length xs) (Ptr b (length pb)) h
                  = (Throw ElemExn, set_slots a (pa @ map Live zs @ qa) (h\<lparr>ticks := t\<rparr>)))"
    then obtain zs where "\<not> nothrow_move T" "length zs = length xs"
      "\<exists>t'. \<exists>x\<in>set xs. raises T MoveCtor t' x"
      "uninitialized_move_n T (Ptr a (length pa)) (length xs) (Ptr b (length pb)) h
                  = (Throw ElemExn, set_slots a (pa @ map Live zs @ qa) (h\<lparr>ticks := t\<rparr>))"
      by blast
    then show ?thesis using True tk
      by (intro exI[of _ t] exI[of _ zs])
         (simp add: MoveDataIfPossibleOrCopyInstead_def)
  qed
next
  case False
  then have tk: "transfer_kind T = CopyCtor" by (simp add: transfer_kind_def)
  have ida: "\<And>h'. slots (blocks h' ! a) = pa @ map Live xs @ qa \<Longrightarrow>
      set_slots a (pa @ map Live xs @ qa) h' = h'"
    by (rule set_slots_id)
  have id1: "set_slots a (pa @ map Live xs @ qa) (set_slots b (pb @ map Live xs @ qb) (h\<lparr>ticks := t\<rparr>))
      = set_slots b (pb @ map Live xs @ qb) (h\<lparr>ticks := t\<rparr>)" for t
    using assms(3,7) by (intro ida) simp
  have id2: "set_slots a (pa @ map Live xs @ qa) (h\<lparr>ticks := t\<rparr>) = h\<lparr>ticks := t\<rparr>" for t
    using assms(3) by (intro ida) simp
  from uninitialized_copy_n_cases[OF assms, of T] obtain t where
    "uninitialized_copy_n T (Ptr a (length pa)) (length xs) (Ptr b (length pb)) h
              = (Ok (), set_slots b (pb @ map Live xs @ qb) (h\<lparr>ticks := t\<rparr>))
           \<or> uninitialized_copy_n T (Ptr a (length pa)) (length xs) (Ptr b (length pb)) h
              = (Throw ElemExn, h\<lparr>ticks := t\<rparr>) \<and> (\<exists>t'. \<exists>x\<in>set xs. raises T CopyCtor t' x)"
    by blast
  then show ?thesis
  proof
    assume "uninitialized_copy_n T (Ptr a (length pa)) (length xs) (Ptr b (length pb)) h
              = (Ok (), set_slots b (pb @ map Live xs @ qb) (h\<lparr>ticks := t\<rparr>))"
    then show ?thesis using False id1[of t]
      by (intro exI[of _ t] exI[of _ xs]) (simp add: MoveDataIfPossibleOrCopyInstead_def)
  next
    assume "uninitialized_copy_n T (Ptr a (length pa)) (length xs) (Ptr b (length pb)) h
              = (Throw ElemExn, h\<lparr>ticks := t\<rparr>) \<and> (\<exists>t'. \<exists>x\<in>set xs. raises T CopyCtor t' x)"
    then show ?thesis using False id2[of t] tk
      by (intro exI[of _ t] exI[of _ xs]) (simp add: MoveDataIfPossibleOrCopyInstead_def)
  qed
qed

lemma Reserve_noop:
  "n \<le> m_capacity (m_data v) \<Longrightarrow> Reserve T n v h = (Ok (), v, h)"
  by (simp add: Reserve_def)

lemma Reserve_BadAlloc:
  assumes "m_capacity (m_data v) < n" "limit h < n * sizeof T" "0 < sizeof T" "n * sizeof T < 2 ^ 64"
  shows "Reserve T n v h = (Throw BadAlloc, v, h)"
  using assms(1,2) by (simp add: Reserve_def RawMemory_ctor_exact[OF assms(3,4)])

lemma Reserve_grow_Null:
  assumes "vec_inv h v" "m_capacity (m_data v) < n" "n * sizeof T \<le> limit h" "m_buffer (m_data v) = Null"
    and "0 < sizeof T" "n * sizeof T < 2 ^ 64"
  shows "Reserve T n v h =
     (Ok (), v\<lparr>m_data := \<lparr>m_buffer = Ptr (length (blocks h)) 0, m_capacity = n\<rparr>\<rparr>, alloc n h)"
  using assms(1-4) vec_inv_NullD[OF assms(1,4)]
  by (simp add: Reserve_def RawMemory_ctor_exact[OF assms(5,6)] MoveDataIfPossibleOrCopyInstead_def GetAddress_def
      Size_def RawMemory_Swap_eq RawMemory_dtor_Null)

lemma Reserve_grow_Ptr:
  assumes "vec_inv h v" "m_capacity (m_data v) < n" "n * sizeof T \<le> limit h" "m_buffer (m_data v) = Ptr a i"
    and "0 < sizeof T" "n * sizeof T < 2 ^ 64"
  shows "\<exists>t zs. length zs = m_size v \<and>
     (Reserve T n v h =
        (Ok (), v\<lparr>m_data := \<lparr>m_buffer = Ptr (length (blocks h)) 0, m_capacity = n\<rparr>\<rparr>,
         release a (set_slots a (replicate (m_capacity (m_data v)) Raw)
           (set_slots (length (blocks h)) (map Live (elems h v) @ replicate (n - m_size v) Raw)
              (alloc n (h\<lparr>ticks := t\<rparr>)))))
      \<or> (\<not> nothrow_move T \<and> (copyable T \<longrightarrow> zs = elems h v) \<and>
         (\<exists>t'. \<exists>x\<in>set (elems h v). raises T (transfer_kind T) t' x) \<and>
         Reserve T n v h =
           (Throw ElemExn, v,
            release (length (blocks h))
              (set_slots a (map Live zs @ replicate (m_capacity (m_data v) - m_size v) Raw)
                 (alloc n (h\<lparr>ticks := t\<rparr>))))))"
proof -
  let ?b = "length (blocks h)"
  let ?xs = "elems h v"
  let ?c = "m_capacity (m_data v)"
  let ?qa = "replicate (?c - m_size v) Raw"
  let ?qb = "replicate (n - m_size v) Raw"
  let ?h1 = "alloc n h"
  note D = vec_inv_PtrD[OF assms(1,4)]
  note rc = RawMemory_ctor_exact[OF assms(5,6)]
  have i0: "i = 0" and ab: "a \<noteq> ?b" and a1: "a < length (blocks ?h1)" using D by simp_all
  have n0: "n \<noteq> 0" using assms(2) by simp
  have lim: "\<not> limit h < n * sizeof T" using assms(3) by simp
  have rep: "replicate n Raw = replicate (length ?xs) Raw @ ?qb"
    using D assms(2) by (simp add: replicate_add[symmetric])
  have pa: "a < length (blocks ?h1)" "freed (blocks ?h1 ! a) = 0"
    "slots (blocks ?h1 ! a) = [] @ map Live ?xs @ ?qa"
    using D by simp_all
  have pb: "?b < length (blocks ?h1)" "freed (blocks ?h1 ! ?b) = 0"
    "slots (blocks ?h1 ! ?b) = [] @ replicate (length ?xs) Raw @ ?qb"
    using rep by simp_all
  have "\<exists>t zs. length zs = length ?xs \<and>
      (MoveDataIfPossibleOrCopyInstead T (Ptr a 0) (length ?xs) (Ptr ?b 0) ?h1
         = (Ok (), set_slots a (map Live zs @ ?qa) (set_slots ?b (map Live ?xs @ ?qb) (?h1\<lparr>ticks := t\<rparr>)))
       \<or> (\<not> nothrow_move T \<and> (copyable T \<longrightarrow> zs = ?xs) \<and>
          (\<exists>t'. \<exists>x\<in>set ?xs. raises T (transfer_kind T) t' x) \<and>
          MoveDataIfPossibleOrCopyInstead T (Ptr a 0) (length ?xs) (Ptr ?b 0) ?h1
         = (Throw ElemExn, set_slots a (map Live zs @ ?qa) (?h1\<lparr>ticks := t\<rparr>))))"
    using MoveData_cases[OF pa pb ab, of T] by simp
  then obtain t zs where zs: "length zs = length ?xs" and
    md0: "MoveDataIfPossibleOrCopyInstead T (Ptr a 0) (length ?xs) (Ptr ?b 0) ?h1
         = (Ok (), set_slots a (map Live zs @ ?qa) (set_slots ?b (map Live ?xs @ ?qb) (?h1\<lparr>ticks := t\<rparr>)))
       \<or> (\<not> nothrow_move T \<and> (copyable T \<longrightarrow> zs = ?xs) \<and>
          (\<exists>t'. \<exists>x\<in>set ?xs. raises T (transfer_kind T) t' x) \<and>
          MoveDataIfPossibleOrCopyInstead T (Ptr a 0) (length ?xs) (Ptr ?b 0) ?h1
         = (Throw ElemExn, set_slots a (map Live zs @ ?qa) (?h1\<lparr>ticks := t\<rparr>)))"
    by blast
  have md: "MoveDataIfPossibleOrCopyInstead T (Ptr a 0) (m_size v) (Ptr ?b 0) ?h1
         = (Ok (), set_slots a (map Live zs @ ?qa) (set_slots ?b (map Live ?xs @ ?qb) (?h1\<lparr>ticks := t\<rparr>)))
       \<or> (\<not> nothrow_move T \<and> (copyable T \<longrightarrow> zs = ?xs) \<and>
          (\<exists>t'. \<exists>x\<in>set ?xs. raises T (transfer_kind T) t' x) \<and>
          MoveDataIfPossibleOrCopyInstead T (Ptr a 0) (m_size v) (Ptr ?b 0) ?h1
         = (Throw ElemExn, set_slots a (map Live zs @ ?qa) (?h1\<lparr>ticks := t\<rparr>)))"
    using md0 D(6) by simp
  from md show ?thesis
  proof
    let ?h2 = "set_slots a (map Live zs @ ?qa) (set_slots ?b (map Live ?xs @ ?qb) (?h1\<lparr>ticks := t\<rparr>))"
    assume ok: "MoveDataIfPossibleOrCopyInstead T (Ptr a 0) (m_size v) (Ptr ?b 0) ?h1 = (Ok (), ?h2)"
    have "destroy_n (Ptr a (length ([]::'a slot list))) (length zs) ?h2
        = (Ok (), set_slots a ([] @ replicate (length zs) Raw @ ?qa) ?h2)"
      using D ab by (intro destroy_n_mid) simp_all
    then have dn: "destroy_n (Ptr a 0) (m_size v) ?h2
        = (Ok (), set_slots a (replicate ?c Raw) (set_slots ?b (map Live ?xs @ ?qb) (?h1\<lparr>ticks := t\<rparr>)))"
      using zs D ab by (simp add: replicate_add[symmetric])
    have "Reserve T n v h =
        (Ok (), v\<lparr>m_data := \<lparr>m_buffer = Ptr ?b 0, m_capacity = n\<rparr>\<rparr>,
         release a (set_slots a (replicate ?c Raw)
           (set_slots ?b (map Live ?xs @ ?qb) (alloc n (h\<lparr>ticks := t\<rparr>)))))"
      using assms(2,4) lim i0 n0 ok dn D(2,3) ab
      by (simp add: Reserve_def rc GetAddress_def Size_def RawMemory_Swap_eq
          RawMemory_dtor_Ptr)
    then show ?thesis using zs D(6) by (intro exI[of _ t] exI[of _ zs]) simp
  next
    let ?h2 = "set_slots a (map Live zs @ ?qa) (?h1\<lparr>ticks := t\<rparr>)"
    assume "\<not> nothrow_move T \<and> (copyable T \<longrightarrow> zs = ?xs) \<and>
          (\<exists>t'. \<exists>x\<in>set ?xs. raises T (transfer_kind T) t' x) \<and>
          MoveDataIfPossibleOrCopyInstead T (Ptr a 0) (m_size v) (Ptr ?b 0) ?h1 = (Throw ElemExn, ?h2)"
    then have nt: "\<not> nothrow_move T" and cz: "copyable T \<longrightarrow> zs = ?xs"
      and rs: "\<exists>t'. \<exists>x\<in>set ?xs. raises T (transfer_kind T) t' x"
      and th: "MoveDataIfPossibleOrCopyInstead T (Ptr a 0) (m_size v) (Ptr ?b 0) ?h1 = (Throw ElemExn, ?h2)"
      by simp_all
    have "Reserve T n v h = (Throw ElemExn, v, release ?b (set_slots a (map Live zs @ ?qa) (alloc n (h\<lparr>ticks := t\<rparr>))))"
      using assms(2,4) lim i0 n0 th ab
      by (simp add: Reserve_def rc GetAddress_def Size_def RawMemory_dtor_Ptr)
    then have "\<not> nothrow_move T \<and> (copyable T \<longrightarrow> zs = elems h v) \<and>
         (\<exists>t'. \<exists>x\<in>set (elems h v). raises T (transfer_kind T) t' x) \<and>
         Reserve T n v h =
           (Throw ElemExn, v,
            release (length (blocks h))
              (set_slots a (map Live zs @ replicate (m_capacity (m_data v) - m_size v) Raw)
                 (alloc n (h\<lparr>ticks := t\<rparr>))))"
      using nt cz rs by simp
    then show ?thesis using zs D(6) by (intro exI[of _ t] exI[of _ zs]) simp
  qed
qed


lemma release_alloc:
  "blocks (release (length (blocks h)) (alloc n h)) = blocks h @ [\<lparr>slots = replicate n Raw, freed = Suc 0\<rparr>]"
  by (simp add: release_def alloc_def)

lemma blocks_ticks_upd: "blocks (f (h\<lparr>ticks := t\<rparr>)) = blocks (f h)"
  if "\<And>h t. f (h\<lparr>ticks := t\<rparr>) = (f h)\<lparr>ticks := t\<rparr>"
  using that by simp

text \<open>
  A growing \<open>Reserve\<close> whose request does not wrap returns normally when the request is
  within the limit and no transfer of an element throws.
\<close>

lemma Reserve_grow_success:
  assumes "vec_inv h v" "m_capacity (m_data v) < n" "n * sizeof T \<le> limit h"
    and "0 < sizeof T" "n * sizeof T < 2 ^ 64"
    and "\<forall>t. \<forall>x\<in>set (elems h v). \<not> raises T (transfer_kind T) t x"
  shows "\<exists>h'. Reserve T n v h =
     (Ok (), v\<lparr>m_data := \<lparr>m_buffer = Ptr (length (blocks h)) 0, m_capacity = n\<rparr>\<rparr>, h')"
proof (cases "m_buffer (m_data v)")
  case Null
  then show ?thesis using Reserve_grow_Null[OF assms(1,2,3) Null assms(4,5)] by blast
next
  case (Ptr a i)
  from Reserve_grow_Ptr[OF assms(1,2,3) Ptr assms(4,5)] show ?thesis
  proof (elim exE conjE disjE, goal_cases)
    case (1 t zs)
    then show ?case by blast
  next
    case (2 t zs)
    then show ?case using assms(6) by blast
  qed
qed

text \<open>What a growing \<open>Reserve\<close> that returns normally leaves behind.\<close>

lemma Reserve_grow_Ok:
  assumes "vec_inv h v" "m_capacity (m_data v) < n" "Reserve T n v h = (Ok (), v', h')"
    and "0 < sizeof T" "n * sizeof T < 2 ^ 64"
  shows "v' = v\<lparr>m_data := \<lparr>m_buffer = Ptr (length (blocks h)) 0, m_capacity = n\<rparr>\<rparr>"
    and "vec_inv h' v'" and "elems h' v' = elems h v"
    and "length (blocks h') = Suc (length (blocks h))" and "limit h' = limit h"
    and "n * sizeof T \<le> limit h"
proof -
  have lim: "n * sizeof T \<le> limit h"
    using Reserve_BadAlloc[OF assms(2) _ assms(4,5), of h] assms(3) by (cases "limit h < n * sizeof T") simp_all
  let ?b = "length (blocks h)"
  let ?v' = "v\<lparr>m_data := \<lparr>m_buffer = Ptr ?b 0, m_capacity = n\<rparr>\<rparr>"
  have "v' = ?v' \<and> vec_inv h' v' \<and> elems h' v' = elems h v
      \<and> length (blocks h') = Suc ?b \<and> limit h' = limit h"
  proof (cases "m_buffer (m_data v)")
    case Null
    note N = vec_inv_NullD[OF assms(1) Null]
    have eq: "v' = ?v'" "h' = alloc n h"
      using Reserve_grow_Null[OF assms(1,2) lim Null assms(4,5)] assms(3) by simp_all
    have "vec_inv (alloc n h) ?v'"
      using assms(2) N by (intro vec_invI[where xs = "[]" and a = ?b]) simp_all
    moreover have "elems (alloc n h) ?v' = []"
      using N by (intro elems_block[where a = ?b and ss = "replicate n Raw"]) simp_all
    ultimately show ?thesis using eq N by simp
  next
    case (Ptr a i)
    note D = vec_inv_PtrD[OF assms(1) Ptr]
    let ?xs = "elems h v"
    from Reserve_grow_Ptr[OF assms(1,2) lim Ptr assms(4,5)] assms(3)
    obtain t where eq: "v' = ?v'"
      "h' = release a (set_slots a (replicate (m_capacity (m_data v)) Raw)
           (set_slots ?b (map Live ?xs @ replicate (n - m_size v) Raw) (alloc n (h\<lparr>ticks := t\<rparr>))))"
      by auto
    have ab: "a \<noteq> ?b" using D by simp
    have sl: "slots (blocks h' ! ?b) = map Live ?xs @ replicate (n - length ?xs) Raw"
      and fr: "freed (blocks h' ! ?b) = 0"
      using ab D unfolding eq(2) by simp_all
    have len: "length (blocks h') = Suc ?b" and li: "limit h' = limit h"
      unfolding eq(2) by simp_all
    have "vec_inv h' ?v'"
      using sl fr len D assms(2) by (intro vec_invI[where xs = ?xs and a = ?b]) simp_all
    moreover have "elems h' ?v' = ?xs"
      using sl D by (intro elems_block[where a = ?b and ss = "replicate (n - length ?xs) Raw"]) simp_all
    ultimately show ?thesis using eq(1) len li by simp
  qed
  then show "v' = ?v'" "vec_inv h' v'" "elems h' v' = elems h v"
    "length (blocks h') = Suc ?b" "limit h' = limit h" "n * sizeof T \<le> limit h"
    using lim by blast+
qed

text \<open>The block a growing \<open>Reserve\<close> leaves: all its objects destroyed, released once.\<close>

lemma Reserve_grow_old_block:
  assumes "vec_inv h v" "m_capacity (m_data v) < n" "Reserve T n v h = (Ok (), v', h')"
    "m_buffer (m_data v) = Ptr a i"
    and "0 < sizeof T" "n * sizeof T < 2 ^ 64"
  shows "blocks h' ! a = \<lparr>slots = replicate (m_capacity (m_data v)) Raw, freed = 1\<rparr>"
proof -
  have lim: "n * sizeof T \<le> limit h"
    using Reserve_BadAlloc[OF assms(2) _ assms(5,6), of h] assms(3) by (cases "limit h < n * sizeof T") simp_all
  note D = vec_inv_PtrD[OF assms(1,4)]
  from Reserve_grow_Ptr[OF assms(1,2) lim assms(4,5,6)] assms(3)
  obtain t where eq:
      "h' = release a (set_slots a (replicate (m_capacity (m_data v)) Raw)
           (set_slots (length (blocks h)) (map Live (elems h v) @ replicate (n - m_size v) Raw)
             (alloc n (h\<lparr>ticks := t\<rparr>))))"
    by auto
  have "slots (blocks h' ! a) = replicate (m_capacity (m_data v)) Raw" "freed (blocks h' ! a) = 1"
    using D unfolding eq by simp_all
  then show ?thesis by simp
qed

lemma Reserve_not_Fault:
  assumes "vec_inv h v" "n \<le> m_capacity (m_data v) \<or> 0 < sizeof T \<and> n * sizeof T < 2 ^ 64"
  shows "fst (Reserve T n v h) \<noteq> Fault"
proof (cases "n \<le> m_capacity (m_data v)")
  case True
  then show ?thesis by (simp add: Reserve_noop)
next
  case False
  then have gr: "m_capacity (m_data v) < n" by simp
  from False assms(2) have sz: "0 < sizeof T" "n * sizeof T < 2 ^ 64" by simp_all
  show ?thesis
  proof (cases "limit h < n * sizeof T")
    case True
    then show ?thesis using Reserve_BadAlloc[OF gr True sz] by simp
  next
    case lim: False
    then have lim': "n * sizeof T \<le> limit h" by simp
    show ?thesis
    proof (cases "m_buffer (m_data v)")
      case Null
      then show ?thesis using Reserve_grow_Null[OF assms(1) gr lim' Null sz] by simp
    next
      case (Ptr a i)
      then show ?thesis using Reserve_grow_Ptr[OF assms(1) gr lim' Ptr sz] by auto
    qed
  qed
qed

text \<open>A \<open>Reserve\<close> that throws, for an element type that is copied or cannot throw on a move.\<close>

lemma Reserve_Throw:
  assumes "vec_inv h v" "Reserve T n v h = (Throw e, v', h')" "nothrow_move T \<or> copyable T"
    and "0 < sizeof T" "n * sizeof T < 2 ^ 64"
  shows "v' = v" and "vec_inv h' v" and "elems h' v = elems h v"
    and "(e = BadAlloc \<and> h' = h) \<or>
         (e = ElemExn \<and> limit h' = limit h \<and>
          blocks h' = blocks h @ [\<lparr>slots = replicate n Raw, freed = 1\<rparr>])"
proof -
  note sz = assms(4,5)
  have gr: "m_capacity (m_data v) < n"
    using assms(2) Reserve_noop[of n v T h] by (cases "n \<le> m_capacity (m_data v)") simp_all
  have "v' = v \<and> ((e = BadAlloc \<and> h' = h) \<or>
         (e = ElemExn \<and> limit h' = limit h \<and>
          blocks h' = blocks h @ [\<lparr>slots = replicate n Raw, freed = 1\<rparr>]))"
  proof (cases "limit h < n * sizeof T")
    case True
    then show ?thesis using Reserve_BadAlloc[OF gr True sz] assms(2) by simp
  next
    case False
    then have lim: "n * sizeof T \<le> limit h" by simp
    show ?thesis
    proof (cases "m_buffer (m_data v)")
      case Null
      then show ?thesis using Reserve_grow_Null[OF assms(1) gr lim Null sz] assms(2) by simp
    next
      case (Ptr a i)
      note D = vec_inv_PtrD[OF assms(1) Ptr]
      from Reserve_grow_Ptr[OF assms(1) gr lim Ptr sz] assms(2,3)
      obtain t where eq: "v' = v" "e = ElemExn"
        "h' = release (length (blocks h))
              (set_slots a (map Live (elems h v) @ replicate (m_capacity (m_data v) - m_size v) Raw)
                 (alloc n (h\<lparr>ticks := t\<rparr>)))"
        by auto
      have "set_slots a (map Live (elems h v) @ replicate (m_capacity (m_data v) - m_size v) Raw)
                 (alloc n (h\<lparr>ticks := t\<rparr>)) = alloc n (h\<lparr>ticks := t\<rparr>)"
        using D by (intro set_slots_id) simp
      then have "h' = (release (length (blocks h)) (alloc n h))\<lparr>ticks := t\<rparr>"
        using eq(3) by simp
      then show ?thesis using eq(1,2) by (simp add: release_alloc)
    qed
  qed
  then show "v' = v" and r: "(e = BadAlloc \<and> h' = h) \<or>
         (e = ElemExn \<and> limit h' = limit h \<and>
          blocks h' = blocks h @ [\<lparr>slots = replicate n Raw, freed = 1\<rparr>])"
    by simp_all
  show "vec_inv h' v" "elems h' v = elems h v"
    using r assms(1) by (auto simp add: vec_inv_def elems_def nth_append split: ptr.splits)
qed

text \<open>A \<open>Reserve\<close> that throws leaves the vector header as it was, for every element type.\<close>

lemma Reserve_Throw_same:
  assumes "vec_inv h v" "Reserve T n v h = (Throw e, v', h')"
    and "0 < sizeof T" "n * sizeof T < 2 ^ 64"
  shows "v' = v"
proof (cases "n \<le> m_capacity (m_data v)")
  case True
  then show ?thesis using assms(2) by (simp add: Reserve_noop)
next
  case False
  then have gr: "m_capacity (m_data v) < n" by simp
  note sz = assms(3,4)
  show ?thesis
  proof (cases "limit h < n * sizeof T")
    case True
    then show ?thesis using Reserve_BadAlloc[OF gr True sz] assms(2) by simp
  next
    case False
    then have lim: "n * sizeof T \<le> limit h" by simp
    show ?thesis
    proof (cases "m_buffer (m_data v)")
      case Null
      then show ?thesis using Reserve_grow_Null[OF assms(1) gr lim Null sz] assms(2) by simp
    next
      case (Ptr a i)
      from Reserve_grow_Ptr[OF assms(1) gr lim Ptr sz] show ?thesis
      proof (elim exE conjE disjE, goal_cases)
        case (1 t zs)
        then show ?case using assms(2) by simp
      next
        case (2 t zs)
        then show ?case using assms(2) by simp
      qed
    qed
  qed
qed




lemma Resize_extend_within:
  assumes "vec_inv h v" "m_size v < n" "n \<le> m_capacity (m_data v)" "m_buffer (m_data v) = Ptr a i"
    and "dflt T = Some d"
  shows "\<exists>t. Resize T n v h =
       (Ok (), v\<lparr>m_size := n\<rparr>,
        set_slots a (map Live (elems h v @ replicate (n - m_size v) d)
                     @ replicate (m_capacity (m_data v) - n) Raw) (h\<lparr>ticks := t\<rparr>))
     \<or> Resize T n v h = (Throw ElemExn, v, h\<lparr>ticks := t\<rparr>) \<and> (\<exists>t'. raises T DefaultCtor t' d)"
proof -
  note D = vec_inv_PtrD[OF assms(1,4)]
  let ?xs = "elems h v"
  let ?c = "m_capacity (m_data v)"
  have sl: "slots (blocks h ! a) = map Live ?xs @ replicate (n - m_size v) Raw @ replicate (?c - n) Raw"
    using D(7) assms(2,3) by (simp add: replicate_add[symmetric])
  from uninitialized_default_construct_n_cases[OF D(2,3) sl assms(5)] obtain t where
    "uninitialized_default_construct_n T (Ptr a (length (map Live ?xs))) (n - m_size v) h
              = (Ok (), set_slots a (map Live ?xs @ replicate (n - m_size v) (Live d) @ replicate (?c - n) Raw) (h\<lparr>ticks := t\<rparr>))
           \<or> uninitialized_default_construct_n T (Ptr a (length (map Live ?xs))) (n - m_size v) h
              = (Throw ElemExn, h\<lparr>ticks := t\<rparr>) \<and> (\<exists>t'. raises T DefaultCtor t' d)"
    by blast
  then have "uninitialized_default_construct_n T (Ptr a (m_size v)) (n - m_size v) h
              = (Ok (), set_slots a (map Live (?xs @ replicate (n - m_size v) d) @ replicate (?c - n) Raw) (h\<lparr>ticks := t\<rparr>))
           \<or> uninitialized_default_construct_n T (Ptr a (m_size v)) (n - m_size v) h
              = (Throw ElemExn, h\<lparr>ticks := t\<rparr>) \<and> (\<exists>t'. raises T DefaultCtor t' d)"
    using D(6) by simp
  then show ?thesis
  proof
    assume "uninitialized_default_construct_n T (Ptr a (m_size v)) (n - m_size v) h
              = (Ok (), set_slots a (map Live (?xs @ replicate (n - m_size v) d) @ replicate (?c - n) Raw) (h\<lparr>ticks := t\<rparr>))"
    then show ?thesis
      using assms(2,3,4) D(1) by (intro exI[of _ t] disjI1) (simp add: Resize_def Reserve_noop raw_plus_def)
  next
    assume th: "uninitialized_default_construct_n T (Ptr a (m_size v)) (n - m_size v) h
              = (Throw ElemExn, h\<lparr>ticks := t\<rparr>) \<and> (\<exists>t'. raises T DefaultCtor t' d)"
    then have "Resize T n v h = (Throw ElemExn, v, h\<lparr>ticks := t\<rparr>)"
      using assms(2,3,4) D(1) by (simp add: Resize_def Reserve_noop raw_plus_def)
    then show ?thesis using th by (intro exI[of _ t] disjI2) simp
  qed
qed

text \<open>Extending a vector of a trivially default-constructible type within its capacity.\<close>

lemma Resize_extend_trivial:
  assumes "vec_inv h v" "m_size v < n" "n \<le> m_capacity (m_data v)" "m_buffer (m_data v) = Ptr a i"
    and "dflt T = None"
  shows "Resize T n v h =
       (Ok (), v\<lparr>m_size := n\<rparr>,
        set_slots a (map Live (elems h v) @ replicate (n - m_size v) Indet
                     @ replicate (m_capacity (m_data v) - n) Raw) h)"
proof -
  note D = vec_inv_PtrD[OF assms(1,4)]
  let ?xs = "elems h v"
  let ?c = "m_capacity (m_data v)"
  have sl: "slots (blocks h ! a) = map Live ?xs @ replicate (n - m_size v) Raw @ replicate (?c - n) Raw"
    using D(7) assms(2,3) by (simp add: replicate_add[symmetric])
  from uninitialized_default_construct_n_trivial[OF D(2,3) sl assms(5)]
  have "uninitialized_default_construct_n T (Ptr a (m_size v)) (n - m_size v) h
              = (Ok (), set_slots a (map Live ?xs @ replicate (n - m_size v) Indet @ replicate (?c - n) Raw) h)"
    using D(6) by simp
  then show ?thesis
    using assms(2,3,4) D(1) by (simp add: Resize_def Reserve_noop raw_plus_def)
qed

lemma Resize_after_Reserve:
  assumes "Reserve T n v h = (Ok (), v1, h1)" "n \<le> m_capacity (m_data v1)"
  shows "Resize T n v h = Resize T n v1 h1"
  using assms by (simp add: Resize_def Reserve_noop)

lemma Resize_Reserve_Throw:
  assumes "Reserve T n v h = (Throw e, v1, h1)"
  shows "Resize T n v h = (Throw e, v1, h1)"
  using assms by (simp add: Resize_def)

lemma Resize_Ok_Reserve:
  assumes "Resize T n v h = (Ok (), v', h')"
  shows "\<exists>v1 h1. Reserve T n v h = (Ok (), v1, h1) \<and> v' = v1\<lparr>m_size := n\<rparr>"
proof (cases "Reserve T n v h")
  case (fields r v1 h1)
  show ?thesis
  proof (cases r)
    case (Ok u)
    then show ?thesis using fields assms
      by (auto simp add: Resize_def split: if_splits prod.splits outcome.splits)
  next
    case (Throw e)
    then show ?thesis using fields assms by (simp add: Resize_def)
  next
    case Fault
    then show ?thesis using fields assms by (simp add: Resize_def)
  qed
qed

lemma vec_inv_Ptr_if_size:
  assumes "vec_inv h v" "0 < m_size v \<or> 0 < m_capacity (m_data v)"
  shows "\<exists>a. m_buffer (m_data v) = Ptr a 0"
  using assms by (cases "m_buffer (m_data v)") (auto simp add: vec_inv_def)

text \<open>
  Extending within the capacity returns normally when the default constructor does not
  throw; so does a growing \<open>Resize\<close> when also its \<open>Reserve\<close> does.
\<close>

lemma Resize_extend_success:
  assumes "vec_inv h v" "m_size v < n" "n \<le> m_capacity (m_data v)"
    and "\<forall>d. dflt T = Some d \<longrightarrow> (\<forall>t. \<not> raises T DefaultCtor t d)"
  shows "\<exists>h'. Resize T n v h = (Ok (), v\<lparr>m_size := n\<rparr>, h')"
proof -
  from assms(2,3) have "0 < m_capacity (m_data v)" by simp
  then obtain a where P: "m_buffer (m_data v) = Ptr a 0"
    using vec_inv_Ptr_if_size[OF assms(1)] by blast
  show ?thesis
  proof (cases "dflt T")
    case None
    then show ?thesis using Resize_extend_trivial[OF assms(1,2,3) P None] by blast
  next
    case (Some d)
    from Resize_extend_within[OF assms(1,2,3) P Some] show ?thesis
    proof (elim exE disjE conjE, goal_cases)
      case (1 t)
      then show ?case by blast
    next
      case (2 t t')
      then show ?case using assms(4) Some by blast
    qed
  qed
qed

lemma Resize_grow_success:
  assumes "vec_inv h v" "m_capacity (m_data v) < n" "n * sizeof T \<le> limit h"
    and "0 < sizeof T" "n * sizeof T < 2 ^ 64"
    and "\<forall>t. \<forall>x\<in>set (elems h v). \<not> raises T (transfer_kind T) t x"
    and "\<forall>d. dflt T = Some d \<longrightarrow> (\<forall>t. \<not> raises T DefaultCtor t d)"
  shows "\<exists>h'. Resize T n v h =
     (Ok (), v\<lparr>m_data := \<lparr>m_buffer = Ptr (length (blocks h)) 0, m_capacity = n\<rparr>, m_size := n\<rparr>, h')"
proof -
  let ?v1 = "v\<lparr>m_data := \<lparr>m_buffer = Ptr (length (blocks h)) 0, m_capacity = n\<rparr>\<rparr>"
  from Reserve_grow_success[OF assms(1-6)] obtain h1 where
    R: "Reserve T n v h = (Ok (), ?v1, h1)" by blast
  note G = Reserve_grow_Ok[OF assms(1,2) R assms(4,5)]
  have sz: "m_size v \<le> m_capacity (m_data v)"
    using assms(1) by (cases "m_buffer (m_data v)") (simp_all add: vec_inv_NullD vec_inv_PtrD)
  have lt: "m_size ?v1 < n" using sz assms(2) by simp
  have le: "n \<le> m_capacity (m_data ?v1)" by simp
  from Resize_extend_success[OF G(2) lt le assms(7)] obtain h' where
    "Resize T n ?v1 h1 = (Ok (), ?v1\<lparr>m_size := n\<rparr>, h')" by blast
  then have "Resize T n v h = (Ok (), ?v1\<lparr>m_size := n\<rparr>, h')"
    using Resize_after_Reserve[OF R le] by simp
  then show ?thesis by auto
qed



lemma slot_at_alloc:
  "slot_at (alloc n h) p = Some (Live x) \<longleftrightarrow> slot_at h p = Some (Live x)"
proof (cases p)
  case Null
  then show ?thesis by simp
next
  case (Ptr a i)
  consider "a < length (blocks h)" | "a = length (blocks h)" | "length (blocks h) < a" by linarith
  then show ?thesis
  proof cases
    case 1 then show ?thesis using Ptr by simp
  next
    case 2 then show ?thesis using Ptr by simp
  next
    case 3 then show ?thesis using Ptr by simp
  qed
qed

lemma slot_at_ticks [simp]: "slot_at (h\<lparr>ticks := t\<rparr>) p = slot_at h p"
  by (cases p) simp_all

lemma arg_value_alloc [simp]: "arg_value (alloc n h) args = arg_value h args"
proof (cases args)
  case (Val x)
  then show ?thesis by simp
next
  case (CRef p)
  show ?thesis
  proof (cases "\<exists>x. slot_at h p = Some (Live x)")
    case True
    then obtain x where "slot_at h p = Some (Live x)" by blast
    then show ?thesis using CRef slot_at_alloc[of n h p x] by simp
  next
    case False
    then have "\<And>x. slot_at (alloc n h) p \<noteq> Some (Live x)" using slot_at_alloc[of n h p] by simp
    then show ?thesis using CRef False by (auto split: option.splits slot.splits)
  qed
next
  case (RRef p)
  show ?thesis
  proof (cases "\<exists>x. slot_at h p = Some (Live x)")
    case True
    then obtain x where "slot_at h p = Some (Live x)" by blast
    then show ?thesis using RRef slot_at_alloc[of n h p x] by simp
  next
    case False
    then have "\<And>x. slot_at (alloc n h) p \<noteq> Some (Live x)" using slot_at_alloc[of n h p] by simp
    then show ?thesis using RRef False by (auto split: option.splits slot.splits)
  qed
qed

lemma arg_value_ticks [simp]: "arg_value (h\<lparr>ticks := t\<rparr>) args = arg_value h args"
  by (cases args) simp_all

lemma emplace_construct_mid:
  assumes "b < length (blocks h)" "freed (blocks h ! b) = 0" "slots (blocks h ! b) = pb @ Raw # qb"
    and "keeps_source args"
  shows "emplace_construct T (Ptr b (length pb)) args h =
     (case arg_value h args of
        None \<Rightarrow> (Fault, h)
      | Some x \<Rightarrow>
          if raises T (arg_kind args) (ticks h) x then (Throw ElemExn, h\<lparr>ticks := Suc (ticks h)\<rparr>)
          else (Ok (), set_slots b (pb @ Live x # qb) (h\<lparr>ticks := Suc (ticks h)\<rparr>)))"
proof (cases args)
  case (Val x)
  then show ?thesis using construct_mid[OF assms(1-3), of T ArgsCtor x] by simp
next
  case (CRef p)
  then show ?thesis using construct_mid[OF assms(1-3), of T CopyCtor]
    by (simp add: copy_construct_def split: option.splits slot.splits)
next
  case (RRef p)
  then show ?thesis using assms(4) by simp
qed

lemma emplace_construct_bad_dst:
  assumes "slot_at h dst = None"
  shows "fst (emplace_construct T dst args h) = Fault"
  using assms
  by (cases args)
     (simp_all add: construct_def copy_construct_def move_construct_def split: option.splits slot.splits)

lemma EmplaceBack_spare:
  assumes "vec_inv h v" "m_size v \<noteq> m_capacity (m_data v)" "m_buffer (m_data v) = Ptr a i"
    and "keeps_source args"
  shows "EmplaceBack T args v h =
     (case arg_value h args of
        None \<Rightarrow> (Fault, v, h)
      | Some x \<Rightarrow>
          if raises T (arg_kind args) (ticks h) x then (Throw ElemExn, v, h\<lparr>ticks := Suc (ticks h)\<rparr>)
          else (Ok (Ptr a (m_size v)), v\<lparr>m_size := m_size v + 1\<rparr>,
                set_slots a (map Live (elems h v @ [x]) @ replicate (m_capacity (m_data v) - m_size v - 1) Raw)
                  (h\<lparr>ticks := Suc (ticks h)\<rparr>)))"
proof -
  note D = vec_inv_PtrD[OF assms(1,3)]
  let ?xs = "elems h v"
  let ?c = "m_capacity (m_data v)"
  have "replicate (?c - m_size v) Raw = (Raw :: 'a slot) # replicate (?c - m_size v - 1) Raw"
    using D(5) assms(2) by (cases "?c - m_size v") simp_all
  then have sl: "slots (blocks h ! a) = map Live ?xs @ Raw # replicate (?c - m_size v - 1) Raw"
    using D(7) by simp
  have "emplace_construct T (Ptr a (m_size v)) args h =
     (case arg_value h args of
        None \<Rightarrow> (Fault, h)
      | Some x \<Rightarrow>
          if raises T (arg_kind args) (ticks h) x then (Throw ElemExn, h\<lparr>ticks := Suc (ticks h)\<rparr>)
          else (Ok (), set_slots a (map Live ?xs @ Live x # replicate (?c - m_size v - 1) Raw) (h\<lparr>ticks := Suc (ticks h)\<rparr>)))"
    using emplace_construct_mid[OF D(2,3) sl assms(4), where T = T] D(6) by simp
  then show ?thesis using assms(2,3) D(1)
    by (simp add: EmplaceBack_def GetAddress_def raw_plus_def split: option.splits)
qed


lemma EmplaceBack_full_Null:
  assumes "vec_inv h v" "m_buffer (m_data v) = Null" "keeps_source args" "0 < room T 1"
  shows "EmplaceBack T args v h =
     (if limit h < sizeof T then (Throw BadAlloc, v, h)
      else case arg_value h args of
        None \<Rightarrow> (Fault, v, alloc 1 h)
      | Some x \<Rightarrow>
          if raises T (arg_kind args) (ticks h) x
          then (Throw ElemExn, v, release (length (blocks h)) (alloc 1 (h\<lparr>ticks := Suc (ticks h)\<rparr>)))
          else (Ok (Ptr (length (blocks h)) 0),
                v\<lparr>m_data := \<lparr>m_buffer = Ptr (length (blocks h)) 0, m_capacity = 1\<rparr>, m_size := 1\<rparr>,
                set_slots (length (blocks h)) [Live x] (alloc 1 (h\<lparr>ticks := Suc (ticks h)\<rparr>))))"
proof -
  note N = vec_inv_NullD[OF assms(1,2)]
  note R = room_one[OF assms(4)]
  have rc: "RawMemory_ctor T (Suc 0) h =
     (if limit h < sizeof T then (Throw BadAlloc, h)
      else (Ok \<lparr>m_buffer = Ptr (length (blocks h)) 0, m_capacity = Suc 0\<rparr>, alloc (Suc 0) h))"
    using RawMemory_ctor_exact[OF R(2), of "Suc 0" h] R(3) by simp
  let ?b = "length (blocks h)"
  let ?h1 = "alloc 1 h"
  have pb: "?b < length (blocks ?h1)" "freed (blocks ?h1 ! ?b) = 0"
    "slots (blocks ?h1 ! ?b) = [] @ Raw # []"
    by simp_all
  have ec: "emplace_construct T (Ptr ?b 0) args ?h1 =
     (case arg_value h args of
        None \<Rightarrow> (Fault, ?h1)
      | Some x \<Rightarrow>
          if raises T (arg_kind args) (ticks h) x then (Throw ElemExn, ?h1\<lparr>ticks := Suc (ticks h)\<rparr>)
          else (Ok (), set_slots ?b [Live x] (?h1\<lparr>ticks := Suc (ticks h)\<rparr>)))"
    using emplace_construct_mid[OF pb assms(3), where T = T] by (simp split: option.splits)
  show ?thesis
    using N assms(2) ec
    by (simp add: EmplaceBack_def rc GetAddress_def Size_def raw_plus_def
        MoveDataIfPossibleOrCopyInstead_def RawMemory_Swap_eq RawMemory_dtor_Null RawMemory_dtor_Ptr
        split: option.splits)
qed

text \<open>
  When the block requested for one object has room for none (\<^verbatim>\<open>sizeof(T)\<close> out of
  range), the first append cannot return normally.
\<close>

lemma EmplaceBack_full_Null_noroom:
  assumes "vec_inv h v" "m_buffer (m_data v) = Null" "\<not> 0 < room T 1"
  shows "fst (EmplaceBack T args v h) = Fault \<or> EmplaceBack T args v h = (Throw BadAlloc, v, h)"
proof (cases "limit h < (1 * sizeof T) mod 2 ^ 64")
  case True
  then have "EmplaceBack T args v h = (Throw BadAlloc, v, h)"
    using vec_inv_NullD[OF assms(1,2)] by (simp add: EmplaceBack_def RawMemory_ctor_eq)
  then show ?thesis by simp
next
  case False
  let ?b = "length (blocks h)"
  have rm: "room T (Suc 0) = 0" using assms(3) by simp
  have "fst (emplace_construct T (Ptr ?b 0) args (alloc 0 h)) = Fault"
    by (intro emplace_construct_bad_dst) simp
  then obtain hx where "emplace_construct T (Ptr ?b 0) args (alloc 0 h) = (Fault, hx)"
    by (cases "emplace_construct T (Ptr ?b 0) args (alloc 0 h)") simp
  then have "fst (EmplaceBack T args v h) = Fault"
    using vec_inv_NullD[OF assms(1,2)] False rm
    by (simp add: EmplaceBack_def RawMemory_ctor_eq GetAddress_def)
  then show ?thesis by simp
qed

lemma EmplaceBack_full_Ptr:
  assumes "vec_inv h v" "m_size v = m_capacity (m_data v)" "m_buffer (m_data v) = Ptr a i"
    and "keeps_source args"
  shows "fst (EmplaceBack T args v h) = Fault
     \<or> EmplaceBack T args v h = (Throw BadAlloc, v, h)
     \<or> (\<exists>t. EmplaceBack T args v h =
            (Throw ElemExn, v, release (length (blocks h)) (alloc (m_size v * 2) (h\<lparr>ticks := t\<rparr>))))
     \<or> (\<exists>x t zs. arg_value h args = Some x \<and> length zs = m_size v \<and>
          (EmplaceBack T args v h =
             (Ok (Ptr (length (blocks h)) (m_size v)),
              v\<lparr>m_data := \<lparr>m_buffer = Ptr (length (blocks h)) 0, m_capacity = m_size v * 2\<rparr>,
                m_size := m_size v + 1\<rparr>,
              release a (set_slots a (replicate (m_size v) Raw)
                (set_slots (length (blocks h)) (map Live (elems h v @ [x]) @ replicate (m_size v - 1) Raw)
                   (alloc (m_size v * 2) (h\<lparr>ticks := t\<rparr>)))))
           \<or> (\<not> nothrow_move T \<and> (copyable T \<longrightarrow> zs = elems h v) \<and>
               EmplaceBack T args v h =
                 (Throw ElemExn, v,
                  release (length (blocks h))
                    (set_slots a (map Live zs)
                      (set_slots (length (blocks h)) (replicate (m_size v) Raw @ Live x # replicate (m_size v - 1) Raw)
                        (alloc (m_size v * 2) (h\<lparr>ticks := t\<rparr>))))))))"
proof -
  note D = vec_inv_PtrD[OF assms(1,3)]
  let ?b = "length (blocks h)"
  let ?xs = "elems h v"
  let ?n = "m_size v"
  let ?temp = "(?n * 2) mod 2 ^ 64"
  let ?E = "EmplaceBack T args v h"
  have n0: "?n \<noteq> 0" using D(4) assms(2) by simp
  have i0: "i = 0" by (rule D(1))
  have sla: "slots (blocks h ! a) = map Live ?xs" using D(7) assms(2) by simp
  show ?thesis
  proof (cases "?temp = 0")
    case True
    have "fst (emplace_construct T Null args h) = Fault"
      by (rule emplace_construct_bad_dst) simp
    then obtain hx where "emplace_construct T Null args h = (Fault, hx)"
      by (cases "emplace_construct T Null args h") simp
    then have "fst ?E = Fault"
      using assms(2) n0 True
      by (simp add: EmplaceBack_def RawMemory_ctor_eq GetAddress_def)
    then show ?thesis by simp
  next
    case t0: False
    show ?thesis
    proof (cases "limit h < (?temp * sizeof T) mod 2 ^ 64")
      case True
      then have "?E = (Throw BadAlloc, v, h)"
        using assms(2) n0 t0 by (simp add: EmplaceBack_def RawMemory_ctor_eq)
      then show ?thesis by simp
    next
      case lim: False
      have rc0: "RawMemory_ctor T ?temp h =
          (Ok \<lparr>m_buffer = Ptr ?b 0, m_capacity = ?temp\<rparr>, alloc (room T ?temp) h)"
        using t0 lim by (simp add: RawMemory_ctor_eq)
      show ?thesis
      proof (cases "?n < room T ?temp")
        case False
        let ?h0 = "alloc (room T ?temp) h"
        have "fst (emplace_construct T (Ptr ?b ?n) args ?h0) = Fault"
          using False by (intro emplace_construct_bad_dst) simp
        then obtain hx where "emplace_construct T (Ptr ?b ?n) args ?h0 = (Fault, hx)"
          by (cases "emplace_construct T (Ptr ?b ?n) args ?h0") simp
        then have "fst ?E = Fault"
          using assms(2) n0 rc0
          by (simp add: EmplaceBack_def GetAddress_def)
        then show ?thesis by simp
      next
        case True
        note RD = room_doubled[OF True]
        have temp: "?temp = ?n * 2" by (rule RD(1))
        let ?h1 = "alloc (?n * 2) h"
        have rc: "RawMemory_ctor T ?temp h = (Ok \<lparr>m_buffer = Ptr ?b 0, m_capacity = ?temp\<rparr>, ?h1)"
          using rc0 RD(1,2) by simp
        let ?qb = "replicate (?n - 1) Raw :: 'a slot list"
        have rep: "replicate (?n * 2) Raw = replicate ?n Raw @ (Raw :: 'a slot) # ?qb"
        proof -
          have "?n * 2 = ?n + Suc (?n - 1)" using n0 by simp
          then have "replicate (?n * 2) (Raw :: 'a slot) = replicate ?n Raw @ replicate (Suc (?n - 1)) Raw"
            by (simp only: replicate_add)
          then show ?thesis by simp
        qed
        have pb: "?b < length (blocks ?h1)" "freed (blocks ?h1 ! ?b) = 0"
          "slots (blocks ?h1 ! ?b) = replicate ?n Raw @ Raw # ?qb"
          using rep by simp_all
        have ec: "emplace_construct T (Ptr ?b ?n) args ?h1 =
           (case arg_value h args of
              None \<Rightarrow> (Fault, ?h1)
            | Some x \<Rightarrow>
                if raises T (arg_kind args) (ticks h) x then (Throw ElemExn, ?h1\<lparr>ticks := Suc (ticks h)\<rparr>)
                else (Ok (), set_slots ?b (replicate ?n Raw @ Live x # ?qb) (?h1\<lparr>ticks := Suc (ticks h)\<rparr>)))"
          using emplace_construct_mid[OF pb assms(4), where T = T] by (simp split: option.splits)
        show ?thesis
        proof (cases "arg_value h args")
          case None
          then have "fst ?E = Fault"
            using assms(2) n0 rc ec by (simp add: EmplaceBack_def GetAddress_def)
          then show ?thesis by simp
        next
          case (Some x)
          show ?thesis
          proof (cases "raises T (arg_kind args) (ticks h) x")
            case True
            have "?E = (Throw ElemExn, v, release ?b (alloc (?n * 2) (h\<lparr>ticks := Suc (ticks h)\<rparr>)))"
              using assms(2) n0 rc ec Some True temp
              by (simp add: EmplaceBack_def GetAddress_def RawMemory_dtor_Ptr)
            then show ?thesis by blast
          next
            case nr: False
            let ?h2 = "set_slots ?b (replicate ?n Raw @ Live x # ?qb) (?h1\<lparr>ticks := Suc (ticks h)\<rparr>)"
            have ec': "emplace_construct T (Ptr ?b ?n) args ?h1 = (Ok (), ?h2)"
              using ec Some nr by simp
            have ab: "a \<noteq> ?b" using D(2) by simp
            have pa2: "a < length (blocks ?h2)" "freed (blocks ?h2 ! a) = 0"
              "slots (blocks ?h2 ! a) = [] @ map Live ?xs @ []"
              using D(2,3) sla ab by simp_all
            have pb2: "?b < length (blocks ?h2)" "freed (blocks ?h2 ! ?b) = 0"
              "slots (blocks ?h2 ! ?b) = [] @ replicate (length ?xs) Raw @ Live x # ?qb"
              using D(6) by simp_all
            have "\<exists>t zs. length zs = length ?xs \<and>
              (MoveDataIfPossibleOrCopyInstead T (Ptr a 0) (length ?xs) (Ptr ?b 0) ?h2
                 = (Ok (), set_slots a (map Live zs) (set_slots ?b (map Live ?xs @ Live x # ?qb) (?h2\<lparr>ticks := t\<rparr>)))
               \<or> (\<not> nothrow_move T \<and> (copyable T \<longrightarrow> zs = ?xs) \<and>
                  (\<exists>t'. \<exists>x\<in>set ?xs. raises T (transfer_kind T) t' x) \<and>
                  MoveDataIfPossibleOrCopyInstead T (Ptr a 0) (length ?xs) (Ptr ?b 0) ?h2
                 = (Throw ElemExn, set_slots a (map Live zs) (?h2\<lparr>ticks := t\<rparr>))))"
              using MoveData_cases[OF pa2 pb2 ab, of T] by simp
            then obtain t zs where zs: "length zs = ?n" and
              md: "MoveDataIfPossibleOrCopyInstead T (Ptr a 0) ?n (Ptr ?b 0) ?h2
                 = (Ok (), set_slots a (map Live zs) (set_slots ?b (map Live ?xs @ Live x # ?qb) (?h2\<lparr>ticks := t\<rparr>)))
               \<or> (\<not> nothrow_move T \<and> (copyable T \<longrightarrow> zs = ?xs) \<and>
                  MoveDataIfPossibleOrCopyInstead T (Ptr a 0) ?n (Ptr ?b 0) ?h2
                 = (Throw ElemExn, set_slots a (map Live zs) (?h2\<lparr>ticks := t\<rparr>)))"
              unfolding D(6) by blast
            from md show ?thesis
            proof
              let ?h3 = "set_slots a (map Live zs) (set_slots ?b (map Live ?xs @ Live x # ?qb) (?h2\<lparr>ticks := t\<rparr>))"
              assume ok: "MoveDataIfPossibleOrCopyInstead T (Ptr a 0) ?n (Ptr ?b 0) ?h2 = (Ok (), ?h3)"
              have "destroy_n (Ptr a (length ([]::'a slot list))) (length zs) ?h3
                  = (Ok (), set_slots a ([] @ replicate (length zs) Raw @ []) ?h3)"
                using D(2,3) ab by (intro destroy_n_mid) simp_all
              then have dn: "destroy_n (Ptr a 0) ?n ?h3
                  = (Ok (), set_slots a (replicate ?n Raw)
                       (set_slots ?b (map Live (?xs @ [x]) @ ?qb) (alloc (?n * 2) (h\<lparr>ticks := t\<rparr>))))"
                using zs temp by simp
              have "?E = (Ok (Ptr ?b ?n),
                  v\<lparr>m_data := \<lparr>m_buffer = Ptr ?b 0, m_capacity = ?n * 2\<rparr>, m_size := ?n + 1\<rparr>,
                  release a (set_slots a (replicate ?n Raw)
                    (set_slots ?b (map Live (?xs @ [x]) @ ?qb) (alloc (?n * 2) (h\<lparr>ticks := t\<rparr>)))))"
                using assms(2,3) i0 n0 rc ec' ok dn D(2,3) ab temp
                by (simp add: EmplaceBack_def GetAddress_def Size_def RawMemory_Swap_eq
                    RawMemory_dtor_Ptr raw_plus_def)
              then show ?thesis using Some zs by blast
            next
              let ?h3 = "set_slots a (map Live zs) (?h2\<lparr>ticks := t\<rparr>)"
              assume "\<not> nothrow_move T \<and> (copyable T \<longrightarrow> zs = ?xs) \<and>
                  MoveDataIfPossibleOrCopyInstead T (Ptr a 0) ?n (Ptr ?b 0) ?h2 = (Throw ElemExn, ?h3)"
              then have nt: "\<not> nothrow_move T" and cz: "copyable T \<longrightarrow> zs = ?xs"
                and th: "MoveDataIfPossibleOrCopyInstead T (Ptr a 0) ?n (Ptr ?b 0) ?h2 = (Throw ElemExn, ?h3)"
                by simp_all
              have "?E = (Throw ElemExn, v,
                  release ?b (set_slots a (map Live zs)
                      (set_slots ?b (replicate ?n Raw @ Live x # ?qb) (alloc (?n * 2) (h\<lparr>ticks := t\<rparr>)))))"
                using assms(2,3) i0 n0 rc ec' th ab temp
                by (simp add: EmplaceBack_def GetAddress_def Size_def RawMemory_dtor_Ptr)
              then show ?thesis using Some zs nt cz by blast
            qed
          qed
        qed
      qed
    qed
  qed
qed



lemma EmplaceBack_full_Null_Ok:
  assumes "vec_inv h v" "m_buffer (m_data v) = Null" "EmplaceBack T args v h = (Ok p, v', h')"
    and "keeps_source args"
  shows "\<exists>x. arg_value h args = Some x \<and> p = Ptr (length (blocks h)) 0 \<and>
      v' = v\<lparr>m_data := \<lparr>m_buffer = Ptr (length (blocks h)) 0, m_capacity = 1\<rparr>, m_size := 1\<rparr> \<and>
      h' = set_slots (length (blocks h)) [Live x] (alloc 1 (h\<lparr>ticks := Suc (ticks h)\<rparr>))"
proof (cases "0 < room T 1")
  case False
  then show ?thesis using EmplaceBack_full_Null_noroom[OF assms(1,2) False, of args] assms(3) by auto
next
  case rm: True
  note E = EmplaceBack_full_Null[OF assms(1,2,4) rm]
  show ?thesis
  proof (cases "limit h < sizeof T")
    case True
    then show ?thesis using E assms(3) by simp
  next
    case lim: False
    show ?thesis
    proof (cases "arg_value h args")
      case None
      then show ?thesis using E assms(3) lim by simp
    next
      case (Some x)
      show ?thesis
      proof (cases "raises T (arg_kind args) (ticks h) x")
        case True
        then show ?thesis using E assms(3) lim Some by simp
      next
        case False
        then show ?thesis using E assms(3) lim Some by simp
      qed
    qed
  qed
qed

lemma EmplaceBack_full_Null_Throw:
  assumes "vec_inv h v" "m_buffer (m_data v) = Null" "EmplaceBack T args v h = (Throw e, v', h')"
    and "keeps_source args"
  shows "v' = v \<and> (h' = h \<or> h' = release (length (blocks h)) (alloc 1 (h\<lparr>ticks := Suc (ticks h)\<rparr>)))"
proof (cases "0 < room T 1")
  case False
  then show ?thesis using EmplaceBack_full_Null_noroom[OF assms(1,2) False, of args] assms(3) by auto
next
  case rm: True
  note E = EmplaceBack_full_Null[OF assms(1,2,4) rm]
  show ?thesis
  proof (cases "limit h < sizeof T")
    case True
    then show ?thesis using E assms(3) by simp
  next
    case lim: False
    show ?thesis
    proof (cases "arg_value h args")
      case None
      then show ?thesis using E assms(3) lim by simp
    next
      case (Some x)
      show ?thesis
      proof (cases "raises T (arg_kind args) (ticks h) x")
        case True
        then show ?thesis using E assms(3) lim Some by simp
      next
        case False
        then show ?thesis using E assms(3) lim Some by simp
      qed
    qed
  qed
qed

lemma EmplaceBack_spare_Ok:
  assumes "vec_inv h v" "m_size v \<noteq> m_capacity (m_data v)" "m_buffer (m_data v) = Ptr a i"
    "EmplaceBack T args v h = (Ok p, v', h')" "keeps_source args"
  shows "\<exists>x. arg_value h args = Some x \<and> p = Ptr a (m_size v) \<and> v' = v\<lparr>m_size := m_size v + 1\<rparr> \<and>
      h' = set_slots a (map Live (elems h v @ [x]) @ replicate (m_capacity (m_data v) - m_size v - 1) Raw)
                  (h\<lparr>ticks := Suc (ticks h)\<rparr>)"
proof (cases "arg_value h args")
  case None
  then show ?thesis using EmplaceBack_spare[OF assms(1,2,3,5), where T = T] assms(4) by simp
next
  case (Some x)
  show ?thesis
  proof (cases "raises T (arg_kind args) (ticks h) x")
    case True
    then show ?thesis using EmplaceBack_spare[OF assms(1,2,3,5), where T = T] assms(4) Some by simp
  next
    case False
    then show ?thesis using EmplaceBack_spare[OF assms(1,2,3,5), where T = T] assms(4) Some by simp
  qed
qed

lemma EmplaceBack_full_Ptr_Ok:
  assumes "vec_inv h v" "m_size v = m_capacity (m_data v)" "m_buffer (m_data v) = Ptr a i"
    "EmplaceBack T args v h = (Ok p, v', h')" "keeps_source args"
  shows "\<exists>x t. arg_value h args = Some x \<and> p = Ptr (length (blocks h)) (m_size v) \<and>
      v' = v\<lparr>m_data := \<lparr>m_buffer = Ptr (length (blocks h)) 0, m_capacity = m_size v * 2\<rparr>,
                m_size := m_size v + 1\<rparr> \<and>
      h' = release a (set_slots a (replicate (m_size v) Raw)
                (set_slots (length (blocks h)) (map Live (elems h v @ [x]) @ replicate (m_size v - 1) Raw)
                   (alloc (m_size v * 2) (h\<lparr>ticks := t\<rparr>))))"
  using EmplaceBack_full_Ptr[OF assms(1,2,3,5), where T = T]
proof (elim disjE exE conjE, goal_cases)
  case 1
  then show ?case using assms(4) by simp
next
  case 2
  then show ?case using assms(4) by simp
next
  case (3 t)
  then show ?case using assms(4) by simp
next
  case (4 x t zs)
  then show ?case using assms(4) by (intro exI[of _ x] exI[of _ t]) simp
next
  case (5 x t zs)
  then show ?case using assms(4) by simp
qed

lemma EmplaceBack_full_Ptr_Throw:
  assumes "vec_inv h v" "m_size v = m_capacity (m_data v)" "m_buffer (m_data v) = Ptr a i"
    "EmplaceBack T args v h = (Throw e, v', h')" "nothrow_move T \<or> copyable T" "keeps_source args"
  shows "v' = v \<and> (h' = h
      \<or> (\<exists>t. h' = release (length (blocks h)) (alloc (m_size v * 2) (h\<lparr>ticks := t\<rparr>)))
      \<or> (\<exists>x t. h' = release (length (blocks h)) (set_slots a (map Live (elems h v))
                      (set_slots (length (blocks h)) (replicate (m_size v) Raw @ Live x # replicate (m_size v - 1) Raw)
                        (alloc (m_size v * 2) (h\<lparr>ticks := t\<rparr>))))))"
  using EmplaceBack_full_Ptr[OF assms(1,2,3,6), where T = T]
proof (elim disjE exE conjE, goal_cases)
  case 1
  then show ?case using assms(4) by simp
next
  case 2
  then show ?case using assms(4) by simp
next
  case (3 t)
  then have "v' = v" "h' = release (length (blocks h)) (alloc (m_size v * 2) (h\<lparr>ticks := t\<rparr>))"
    using assms(4) by simp_all
  then show ?case by blast
next
  case (4 x t zs)
  then show ?case using assms(4) by simp
next
  case (5 x t zs)
  then have "zs = elems h v" using assms(5) by blast
  then have "v' = v" "h' = release (length (blocks h)) (set_slots a (map Live (elems h v))
                      (set_slots (length (blocks h)) (replicate (m_size v) Raw @ Live x # replicate (m_size v - 1) Raw)
                        (alloc (m_size v * 2) (h\<lparr>ticks := t\<rparr>))))"
    using 5 assms(4) by simp_all
  then show ?case by blast
qed


lemma release_set_alloc:
  "blocks (release (length (blocks h)) (set_slots (length (blocks h)) S (alloc m h)))
     = blocks h @ [\<lparr>slots = S, freed = Suc 0\<rparr>]"
  by (simp add: release_def set_slots_def alloc_def)

lemma vec_inv_frame:
  assumes "vec_inv h v" "blocks h' = blocks h @ bs"
  shows "vec_inv h' v" "elems h' v = elems h v"
  using assms by (auto simp add: vec_inv_def elems_def nth_append split: ptr.splits)

text \<open>What an \<open>EmplaceBack\<close> that returns normally leaves behind.\<close>

lemma EmplaceBack_Ok_keeps:
  assumes "vec_inv h v" "EmplaceBack T args v h = (Ok p, v', h')" "keeps_source args"
  shows "\<exists>x. arg_value h args = Some x \<and> elems h' v' = elems h v @ [x]"
    and "vec_inv h' v'" and "m_size v' = Suc (m_size v)"
    and "m_capacity (m_data v') =
           (if m_size v = m_capacity (m_data v) then (if m_size v = 0 then 1 else 2 * m_size v)
            else m_capacity (m_data v))"
    and "p = ptr_add (m_buffer (m_data v')) (m_size v)"
proof -
  let ?xs = "elems h v"
  let ?c = "m_capacity (m_data v)"
  let ?b = "length (blocks h)"
  have "(\<exists>x. arg_value h args = Some x \<and> elems h' v' = ?xs @ [x]) \<and> vec_inv h' v' \<and>
      m_size v' = Suc (m_size v) \<and>
      m_capacity (m_data v') = (if m_size v = ?c then (if m_size v = 0 then 1 else 2 * m_size v) else ?c) \<and>
      p = ptr_add (m_buffer (m_data v')) (m_size v)"
  proof (cases "m_buffer (m_data v)")
    case Null
    note N = vec_inv_NullD[OF assms(1) Null]
    from EmplaceBack_full_Null_Ok[OF assms(1) Null assms(2,3)]
    obtain x where x: "arg_value h args = Some x"
      and eq: "p = Ptr ?b 0"
        "v' = v\<lparr>m_data := \<lparr>m_buffer = Ptr ?b 0, m_capacity = 1\<rparr>, m_size := 1\<rparr>"
        "h' = set_slots ?b [Live x] (alloc 1 (h\<lparr>ticks := Suc (ticks h)\<rparr>))"
      by blast
    have sl: "slots (blocks h' ! ?b) = map Live [x] @ replicate (m_capacity (m_data v') - length [x]) Raw"
      unfolding eq by simp
    have "vec_inv h' v'"
      by (rule vec_invI[OF _ _ _ _ _ _ sl]) (simp_all add: eq)
    moreover have "elems h' v' = [x]"
      by (rule elems_block[OF _ sl]) (simp_all add: eq)
    ultimately show ?thesis using x N eq(1,2) by simp
  next
    case (Ptr a i)
    note D = vec_inv_PtrD[OF assms(1) Ptr]
    show ?thesis
    proof (cases "m_size v = ?c")
      case False
      from EmplaceBack_spare_Ok[OF assms(1) False Ptr assms(2,3)]
      obtain x where x: "arg_value h args = Some x"
        and eq: "p = Ptr a (m_size v)" "v' = v\<lparr>m_size := m_size v + 1\<rparr>"
          "h' = set_slots a (map Live (?xs @ [x]) @ replicate (?c - m_size v - 1) Raw)
                  (h\<lparr>ticks := Suc (ticks h)\<rparr>)"
        by blast
      have sl: "slots (blocks h' ! a) = map Live (?xs @ [x])
          @ replicate (m_capacity (m_data v') - length (?xs @ [x])) Raw"
        using D(2,6) unfolding eq by simp
      have "vec_inv h' v'"
        using D False Ptr by (intro vec_invI[OF _ _ _ _ _ _ sl]) (simp_all add: eq)
      moreover have "elems h' v' = ?xs @ [x]"
        using D Ptr by (intro elems_block[OF _ sl]) (simp_all add: eq)
      ultimately show ?thesis using x False eq(1,2) Ptr D(1) by simp
    next
      case True
      have n0: "m_size v \<noteq> 0" using D(4) True by simp
      from EmplaceBack_full_Ptr_Ok[OF assms(1) True Ptr assms(2,3)]
      obtain x t where x: "arg_value h args = Some x"
        and eq: "p = Ptr ?b (m_size v)"
          "v' = v\<lparr>m_data := \<lparr>m_buffer = Ptr ?b 0, m_capacity = m_size v * 2\<rparr>, m_size := m_size v + 1\<rparr>"
          "h' = release a (set_slots a (replicate (m_size v) Raw)
                (set_slots ?b (map Live (?xs @ [x]) @ replicate (m_size v - 1) Raw)
                   (alloc (m_size v * 2) (h\<lparr>ticks := t\<rparr>))))"
        by blast
      have ab: "a \<noteq> ?b" using D(2) by simp
      have sl: "slots (blocks h' ! ?b) = map Live (?xs @ [x])
          @ replicate (m_capacity (m_data v') - length (?xs @ [x])) Raw"
        using ab D(6) n0 unfolding eq by simp
      have fr: "?b < length (blocks h')" "freed (blocks h' ! ?b) = 0"
        using ab unfolding eq by simp_all
      have "vec_inv h' v'"
        using D fr n0 by (intro vec_invI[OF _ _ _ _ _ _ sl]) (simp_all add: eq(2))
      moreover have "elems h' v' = ?xs @ [x]"
        using D by (intro elems_block[OF _ sl]) (simp_all add: eq(2))
      ultimately show ?thesis using x True n0 eq(1,2) by simp
    qed
  qed
  then show "\<exists>x. arg_value h args = Some x \<and> elems h' v' = elems h v @ [x]"
    "vec_inv h' v'" "m_size v' = Suc (m_size v)"
    "m_capacity (m_data v') =
           (if m_size v = m_capacity (m_data v) then (if m_size v = 0 then 1 else 2 * m_size v)
            else m_capacity (m_data v))"
    "p = ptr_add (m_buffer (m_data v')) (m_size v)"
    by blast+
qed

text \<open>An \<open>EmplaceBack\<close> on a full vector that throws, for an element type that is copied or cannot throw on a move.\<close>

lemma EmplaceBack_full_Throw:
  fixes h :: "'a heap"
  assumes "vec_inv h v" "m_size v = m_capacity (m_data v)"
    "EmplaceBack T args v h = (Throw e, v', h')" "nothrow_move T \<or> copyable T" "keeps_source args"
  shows "v' = v" and "vec_inv h' v" and "elems h' v = elems h v"
    and "h' = h \<or> (\<exists>blk. blocks h' = blocks h @ [blk] \<and> freed blk = 1 \<and> limit h' = limit h)"
proof -
  let ?b = "length (blocks h)"
  have "v' = v \<and> (h' = h \<or> (\<exists>blk. blocks h' = blocks h @ [blk] \<and> freed blk = 1 \<and> limit h' = limit h))"
  proof (cases "m_buffer (m_data v)")
    case Null
    have "blocks (release ?b (alloc 1 (h\<lparr>ticks := Suc (ticks h)\<rparr>))) = blocks h @ [\<lparr>slots = replicate 1 Raw, freed = Suc 0\<rparr>]"
      using release_alloc[of "h\<lparr>ticks := Suc (ticks h)\<rparr>" 1] by simp
    moreover have "limit (release ?b (alloc 1 (h\<lparr>ticks := Suc (ticks h)\<rparr>))) = limit h"
      by simp
    ultimately have "\<exists>blk. blocks (release ?b (alloc 1 (h\<lparr>ticks := Suc (ticks h)\<rparr>))) = blocks h @ [blk] \<and> freed blk = 1
        \<and> limit (release ?b (alloc 1 (h\<lparr>ticks := Suc (ticks h)\<rparr>))) = limit h"
      by simp
    then show ?thesis
      using EmplaceBack_full_Null_Throw[OF assms(1) Null assms(3,5)] by blast
  next
    case (Ptr a i)
    note D = vec_inv_PtrD[OF assms(1) Ptr]
    from EmplaceBack_full_Ptr_Throw[OF assms(1,2) Ptr assms(3,4,5)]
    have v: "v' = v" and
      alt: "h' = h
      \<or> (\<exists>t. h' = release ?b (alloc (m_size v * 2) (h\<lparr>ticks := t\<rparr>)))
      \<or> (\<exists>x t. h' = release ?b (set_slots a (map Live (elems h v))
                      (set_slots ?b (replicate (m_size v) Raw @ Live x # replicate (m_size v - 1) Raw)
                        (alloc (m_size v * 2) (h\<lparr>ticks := t\<rparr>)))))"
      by blast+
    from alt have "h' = h \<or> (\<exists>blk. blocks h' = blocks h @ [blk] \<and> freed blk = 1 \<and> limit h' = limit h)"
    proof (elim disjE exE)
      assume "h' = h"
      then show ?thesis by simp
    next
      fix t assume h': "h' = release ?b (alloc (m_size v * 2) (h\<lparr>ticks := t\<rparr>))"
      have "blocks h' = blocks h @ [\<lparr>slots = replicate (m_size v * 2) Raw, freed = Suc 0\<rparr>]"
        using release_alloc[of "h\<lparr>ticks := t\<rparr>" "m_size v * 2"] h' by simp
      moreover have "limit h' = limit h" using h' by simp
      ultimately show ?thesis by simp
    next
      fix x :: 'a and t
      let ?S = "replicate (m_size v) Raw @ Live x # replicate (m_size v - 1) Raw"
      assume h': "h' = release ?b (set_slots a (map Live (elems h v))
                      (set_slots ?b ?S (alloc (m_size v * 2) (h\<lparr>ticks := t\<rparr>))))"
      have ab: "a \<noteq> ?b" using D(2) by simp
      have "set_slots a (map Live (elems h v)) (set_slots ?b ?S (alloc (m_size v * 2) (h\<lparr>ticks := t\<rparr>)))
          = set_slots ?b ?S (alloc (m_size v * 2) (h\<lparr>ticks := t\<rparr>))"
        using D(2,7) ab assms(2) by (intro set_slots_id) simp
      then have "blocks h' = blocks h @ [\<lparr>slots = ?S, freed = Suc 0\<rparr>]"
        using release_set_alloc[of "h\<lparr>ticks := t\<rparr>" ?S "m_size v * 2"] h' by simp
      moreover have "limit h' = limit h" using h' by simp
      ultimately show ?thesis by simp
    qed
    then show ?thesis using v by simp
  qed
  then show "v' = v" and r: "h' = h \<or> (\<exists>blk. blocks h' = blocks h @ [blk] \<and> freed blk = 1 \<and> limit h' = limit h)"
    by simp_all
  from r show "vec_inv h' v"
  proof
    assume "h' = h" then show ?thesis using assms(1) by simp
  next
    assume "\<exists>blk. blocks h' = blocks h @ [blk] \<and> freed blk = 1 \<and> limit h' = limit h"
    then show ?thesis using vec_inv_frame(1)[OF assms(1)] by blast
  qed
  from r show "elems h' v = elems h v"
  proof
    assume "h' = h" then show ?thesis by simp
  next
    assume "\<exists>blk. blocks h' = blocks h @ [blk] \<and> freed blk = 1 \<and> limit h' = limit h"
    then show ?thesis using vec_inv_frame(2)[OF assms(1)] by blast
  qed
qed
subsection \<open>Appending an object that is moved from\<close>

lemma rethrow_not_Ok [simp]: "rethrow r \<noteq> Ok q"
  by (cases r) simp_all

lemma silent_args_simps [simp]:
  "sizeof (silent_args T) = sizeof T"
  "nothrow_move (silent_args T) = nothrow_move T"
  "copyable (silent_args T) = copyable T"
  "residue (silent_args T) = residue T"
  "raises (silent_args T) ArgsCtor t y = False"
  "k \<noteq> ArgsCtor \<Longrightarrow> raises (silent_args T) k t y = raises T k t y"
  by (simp_all add: silent_args_def raises_def)

lemma construct_silent:
  "k \<noteq> ArgsCtor \<Longrightarrow> construct (silent_args T) k dst x h = construct T k dst x h"
  by (simp add: construct_def)

lemma copy_construct_silent [simp]:
  "copy_construct (silent_args T) dst src h = copy_construct T dst src h"
  by (simp add: copy_construct_def construct_silent split: option.splits slot.splits)

lemma move_construct_silent [simp]:
  "move_construct (silent_args T) dst src h = move_construct T dst src h"
  by (simp add: move_construct_def construct_silent
      split: option.splits slot.splits prod.splits outcome.splits)

lemma uninitialized_copy_n_silent [simp]:
  "uninitialized_copy_n (silent_args T) src n dst h = uninitialized_copy_n T src n dst h"
  by (induction n arbitrary: src dst h) (simp_all split: prod.splits outcome.splits)

lemma uninitialized_move_n_silent [simp]:
  "uninitialized_move_n (silent_args T) src n dst h = uninitialized_move_n T src n dst h"
  by (induction n arbitrary: src dst h) (simp_all split: prod.splits outcome.splits)

lemma MoveData_silent [simp]:
  "MoveDataIfPossibleOrCopyInstead (silent_args T) src n dst h
     = MoveDataIfPossibleOrCopyInstead T src n dst h"
  by (simp add: MoveDataIfPossibleOrCopyInstead_def)

lemma room_silent [simp]: "room (silent_args T) n = room T n"
  by (simp add: room_def)

lemma slot_at_SomeD:
  assumes "slot_at h p = Some s"
  shows "\<exists>c k. p = Ptr c k \<and> c < length (blocks h) \<and> freed (blocks h ! c) = 0 \<and>
           k < length (slots (blocks h ! c)) \<and> slots (blocks h ! c) ! k = s"
  using assms by (cases p) (auto split: if_splits)

lemma put_slot_fields [simp]:
  "limit (put_slot p s h) = limit h"
  "ticks (put_slot p s h) = ticks h"
  "length (blocks (put_slot p s h)) = length (blocks h)"
  by (cases p; simp)+

lemma put_slot_tick: "put_slot p s (tick h) = tick (put_slot p s h)"
  by (cases p) (simp_all add: tick_def)

lemma slot_at_put_slot_other:
  assumes "p \<noteq> q"
  shows "slot_at (put_slot p s h) q = slot_at h q"
proof (cases p)
  case Null
  then show ?thesis by simp
next
  case P: (Ptr a i)
  show ?thesis
  proof (cases q)
    case Null
    then show ?thesis by simp
  next
    case Q: (Ptr b j)
    show ?thesis
    proof (cases "a = b")
      case False
      then show ?thesis using P Q by simp
    next
      case True
      then have ij: "i \<noteq> j" using assms P Q by simp
      show ?thesis
      proof (cases "a < length (blocks h)")
        case True
        then show ?thesis using P Q \<open>a = b\<close> ij by simp
      next
        case False
        then show ?thesis using P Q \<open>a = b\<close> by simp
      qed
    qed
  qed
qed

lemma put_slot_commute:
  assumes "p \<noteq> q"
  shows "put_slot p s (put_slot q s' h) = put_slot q s' (put_slot p s h)"
proof (cases p)
  case Null
  then show ?thesis by simp
next
  case P: (Ptr a i)
  show ?thesis
  proof (cases q)
    case Null
    then show ?thesis by simp
  next
    case Q: (Ptr b j)
    show ?thesis
    proof (cases "a = b")
      case False
      then show ?thesis using P Q by (simp add: list_update_swap)
    next
      case True
      then have ij: "i \<noteq> j" using assms P Q by simp
      show ?thesis
      proof (cases "a < length (blocks h)")
        case True
        then show ?thesis using P Q \<open>a = b\<close> ij by (simp add: list_update_swap)
      next
        case False
        then have "(blocks h)[a := X] = blocks h" for X
          by (intro list_update_beyond) simp
        then show ?thesis using P Q \<open>a = b\<close> by simp
      qed
    qed
  qed
qed

lemma alloc_put_slot:
  assumes "slot_at h p = Some s0"
  shows "alloc m (put_slot p s h) = put_slot p s (alloc m h)"
proof -
  from slot_at_SomeD[OF assms] obtain c k where p: "p = Ptr c k" and c: "c < length (blocks h)"
    by blast
  show ?thesis using p c by (simp add: alloc_def list_update_append1 nth_append)
qed

lemma RawMemory_ctor_put_slot:
  assumes "slot_at h p = Some s0"
  shows "RawMemory_ctor (silent_args T) n (put_slot p s h) =
     (case RawMemory_ctor T n h of (r, h1) \<Rightarrow> (r, put_slot p s h1))"
  using alloc_put_slot[OF assms, of "room T n" s] by (simp add: RawMemory_ctor_eq)

lemma emplace_RRef_Ok:
  assumes "emplace_construct T dst (RRef p) h1 = (Ok u, h2)"
  shows "\<exists>x. slot_at h1 p = Some (Live x) \<and>
     emplace_construct (silent_args T) dst (Val x) (put_slot p (Live (residue T x)) h1) = (Ok (), h2)"
proof -
  from assms obtain x h0 where sp: "slot_at h1 p = Some (Live x)"
    and c: "construct T MoveCtor dst x h1 = (Ok (), h0)"
    and h2: "h2 = put_slot p (Live (residue T x)) h0"
    by (auto simp add: move_construct_def split: option.splits slot.splits prod.splits outcome.splits)
  from c have sd: "slot_at h1 dst = Some Raw" and nr: "\<not> raises T MoveCtor (ticks h1) x"
    and h0: "h0 = put_slot dst (Live x) (tick h1)"
    by (auto simp add: construct_def split: option.splits slot.splits if_splits)
  have ne: "p \<noteq> dst" using sp sd by auto
  let ?L = "Live (residue T x)"
  have "slot_at (put_slot p ?L h1) dst = Some Raw"
    by (simp add: slot_at_put_slot_other[OF ne] sd)
  then have "construct (silent_args T) ArgsCtor dst x (put_slot p ?L h1)
      = (Ok (), put_slot dst (Live x) (tick (put_slot p ?L h1)))"
    by (simp add: construct_def)
  also have "put_slot dst (Live x) (tick (put_slot p ?L h1)) = put_slot dst (Live x) (put_slot p ?L (tick h1))"
    by (simp add: put_slot_tick)
  also have "\<dots> = h2" unfolding h2 h0 using put_slot_commute[OF ne, of ?L "Live x" "tick h1"] by simp
  finally show ?thesis using sp by simp
qed

text \<open>
  An \<open>EmplaceBack\<close> with an rvalue argument that returns normally does what an
  \<open>EmplaceBack\<close> of the value does in the heap where the argument's object is already
  moved-from.
\<close>

lemma EmplaceBack_RRef_Ok:
  assumes "EmplaceBack T (RRef p) v h = (Ok q, v', h')"
  shows "\<exists>x. slot_at h p = Some (Live x) \<and>
     EmplaceBack (silent_args T) (Val x) v (put_slot p (Live (residue T x)) h) = (Ok q, v', h')"
proof (cases "m_size v = m_capacity (m_data v)")
  case False
  let ?dst = "ptr_add (GetAddress (m_data v)) (m_size v)"
  obtain r2 h2 where ec: "emplace_construct T ?dst (RRef p) h = (r2, h2)"
    by (cases "emplace_construct T ?dst (RRef p) h") auto
  have r2: "r2 = Ok ()"
    using assms False ec by (cases r2) (simp_all add: EmplaceBack_def del: emplace_construct.simps)
  from emplace_RRef_Ok[OF ec[unfolded r2]] obtain x where sp: "slot_at h p = Some (Live x)"
    and ec': "emplace_construct (silent_args T) ?dst (Val x) (put_slot p (Live (residue T x)) h) = (Ok (), h2)"
    by blast
  have "EmplaceBack (silent_args T) (Val x) v (put_slot p (Live (residue T x)) h)
      = EmplaceBack T (RRef p) v h"
    using False ec r2 ec' by (simp add: EmplaceBack_def del: emplace_construct.simps)
  then show ?thesis using sp assms by simp
next
  case True
  let ?n = "if m_size v = 0 then 1 else (m_size v * 2) mod 2 ^ 64"
  obtain r1 h1 where rc: "RawMemory_ctor T ?n h = (r1, h1)"
    by (cases "RawMemory_ctor T ?n h") auto
  obtain nd where r1: "r1 = Ok nd"
    using assms True rc by (cases r1) (simp_all add: EmplaceBack_def)
  let ?dst = "ptr_add (GetAddress nd) (m_size v)"
  obtain r2 h2 where ec: "emplace_construct T ?dst (RRef p) h1 = (r2, h2)"
    by (cases "emplace_construct T ?dst (RRef p) h1") auto
  have r2: "r2 = Ok ()"
    using assms True rc r1 ec
    by (cases r2) (auto simp add: EmplaceBack_def simp del: emplace_construct.simps split: prod.splits outcome.splits)
  from emplace_RRef_Ok[OF ec[unfolded r2]] obtain x where sp1: "slot_at h1 p = Some (Live x)"
    and ec': "emplace_construct (silent_args T) ?dst (Val x) (put_slot p (Live (residue T x)) h1) = (Ok (), h2)"
    by blast
  have h1: "h1 = h \<or> (\<exists>m. h1 = alloc m h)"
    using rc r1 by (auto simp add: RawMemory_ctor_eq split: if_splits)
  then have sp: "slot_at h p = Some (Live x)" using sp1 by (auto simp add: slot_at_alloc)
  have rc': "RawMemory_ctor (silent_args T) ?n (put_slot p (Live (residue T x)) h)
      = (Ok nd, put_slot p (Live (residue T x)) h1)"
    using RawMemory_ctor_put_slot[OF sp, of T ?n "Live (residue T x)"] rc r1 by simp
  have "EmplaceBack (silent_args T) (Val x) v (put_slot p (Live (residue T x)) h)
      = EmplaceBack T (RRef p) v h"
    using True rc r1 ec r2 ec' rc' by (simp add: EmplaceBack_def Size_def del: emplace_construct.simps)
  then show ?thesis using sp assms by simp
qed

lemma vec_inv_other_blocks:
  assumes "vec_inv h w"
    and "\<And>c i. m_buffer (m_data w) = Ptr c i \<Longrightarrow> c < length (blocks h') \<and> blocks h' ! c = blocks h ! c"
  shows "vec_inv h' w" "elems h' w = elems h w"
proof -
  show e: "elems h' w = elems h w"
    using assms(2) by (cases "m_buffer (m_data w)") (simp_all add: elems_def)
  show "vec_inv h' w"
  proof (cases "m_buffer (m_data w)")
    case Null
    then show ?thesis using assms(1) by (simp add: vec_inv_def)
  next
    case (Ptr c i)
    note D = vec_inv_PtrD[OF assms(1) Ptr]
    show ?thesis using D e assms(2)[OF Ptr] Ptr by (simp add: vec_inv_def)
  qed
qed

text \<open>Giving a live object another value keeps every vector well formed.\<close>

lemma vec_inv_put_Live:
  assumes "vec_inv h v" "slot_at h p = Some (Live x)"
  shows "vec_inv (put_slot p (Live y) h) v"
proof (cases "m_buffer (m_data v)")
  case Null
  then show ?thesis using assms(1) by (simp add: vec_inv_def)
next
  case (Ptr a i)
  note D = vec_inv_PtrD[OF assms(1) Ptr]
  from slot_at_SomeD[OF assms(2)] obtain c k where p: "p = Ptr c k" and c: "c < length (blocks h)"
    and k: "k < length (slots (blocks h ! c))" and sk: "slots (blocks h ! c) ! k = Live x"
    by blast
  let ?h' = "put_slot p (Live y) h"
  show ?thesis
  proof (cases "c = a")
    case False
    have "a < length (blocks ?h') \<and> blocks ?h' ! a = blocks h ! a"
      using False p D(2) by simp
    then show ?thesis using vec_inv_other_blocks(1)[OF assms(1), of ?h'] Ptr by simp
  next
    case True
    let ?xs = "elems h v"
    let ?q = "replicate (m_capacity (m_data v) - m_size v) Raw :: 'a slot list"
    have kx: "k < length ?xs"
    proof (rule ccontr)
      assume "\<not> k < length ?xs"
      then have "(map Live ?xs @ ?q) ! k = Raw" using k True D(7) by (simp add: nth_append)
      then show False using sk True D(7) by simp
    qed
    have "slots (blocks ?h' ! a) = (map Live ?xs @ ?q)[k := Live y]"
      using p True c D(7) by simp
    also have "\<dots> = map Live (?xs[k := y]) @ ?q"
      using kx by (simp add: list_update_append1 map_update)
    finally have sl: "slots (blocks ?h' ! a) = map Live (?xs[k := y])
        @ replicate (m_capacity (m_data v) - length (?xs[k := y])) Raw"
      using D(6) by simp
    have fr: "freed (blocks ?h' ! a) = 0" using p True c D(3) by simp
    show ?thesis
      using Ptr D fr by (intro vec_invI[OF _ _ _ _ _ _ sl]) simp_all
  qed
qed

lemma taken_keeps: "keeps_source args \<Longrightarrow> taken T args h = h"
  by (cases args) simp_all

text \<open>What an \<open>EmplaceBack\<close> that returns normally leaves behind, for every argument.\<close>

lemma EmplaceBack_Ok:
  assumes "vec_inv h v" "EmplaceBack T args v h = (Ok p, v', h')"
  shows "\<exists>x. arg_value h args = Some x \<and> elems h' v' = elems (taken T args h) v @ [x]"
    and "vec_inv h' v'" and "m_size v' = Suc (m_size v)"
    and "m_capacity (m_data v') =
           (if m_size v = m_capacity (m_data v) then (if m_size v = 0 then 1 else 2 * m_size v)
            else m_capacity (m_data v))"
    and "p = ptr_add (m_buffer (m_data v')) (m_size v)"
proof -
  have "(\<exists>x. arg_value h args = Some x \<and> elems h' v' = elems (taken T args h) v @ [x]) \<and>
      vec_inv h' v' \<and> m_size v' = Suc (m_size v) \<and>
      m_capacity (m_data v') =
           (if m_size v = m_capacity (m_data v) then (if m_size v = 0 then 1 else 2 * m_size v)
            else m_capacity (m_data v)) \<and>
      p = ptr_add (m_buffer (m_data v')) (m_size v)"
  proof (cases "keeps_source args")
    case True
    show ?thesis using EmplaceBack_Ok_keeps[OF assms True] taken_keeps[OF True, of T h] by simp
  next
    case False
    then obtain q where a: "args = RRef q" by (cases args) simp_all
    from EmplaceBack_RRef_Ok[OF assms(2)[unfolded a]] obtain x where
      sp: "slot_at h q = Some (Live x)" and
      E: "EmplaceBack (silent_args T) (Val x) v (put_slot q (Live (residue T x)) h) = (Ok p, v', h')"
      by blast
    have inv0: "vec_inv (put_slot q (Live (residue T x)) h) v"
      by (rule vec_inv_put_Live[OF assms(1) sp])
    have tk: "taken T args h = put_slot q (Live (residue T x)) h" using a sp by simp
    have av: "arg_value h args = Some x" using a sp by simp
    note K = EmplaceBack_Ok_keeps[OF inv0 E]
    show ?thesis using K(1)[simplified] K(2-5) tk av by simp
  qed
  then show "\<exists>x. arg_value h args = Some x \<and> elems h' v' = elems (taken T args h) v @ [x]"
    "vec_inv h' v'" "m_size v' = Suc (m_size v)"
    "m_capacity (m_data v') =
           (if m_size v = m_capacity (m_data v) then (if m_size v = 0 then 1 else 2 * m_size v)
            else m_capacity (m_data v))"
    "p = ptr_add (m_buffer (m_data v')) (m_size v)"
    by blast+
qed

lemma PushBack_Ok:
  assumes "PushBack T a v h = (Ok (), v', h')"
  shows "\<exists>p. EmplaceBack T a v h = (Ok p, v', h')"
proof (cases "EmplaceBack T a v h")
  case (fields r v1 h1)
  then show ?thesis using assms by (cases r) (simp_all add: PushBack_def)
qed

lemma appends_append:
  "appends T (xs @ ys) v h =
     (case appends T xs v h of (Ok u, v1, h1) \<Rightarrow> appends T ys v1 h1 | r \<Rightarrow> r)"
proof (induction xs arbitrary: v h)
  case Nil
  then show ?case by simp
next
  case (Cons x xs)
  show ?case
  proof (cases "PushBack T x v h")
    case (fields r v1 h1)
    then show ?thesis using Cons.IH[of v1 h1] by (cases r) simp_all
  qed
qed

lemma appends_prefix_Ok:
  assumes "appends T (xs @ ys) v h = (Ok (), v', h')"
  shows "\<exists>v1 h1. appends T xs v h = (Ok (), v1, h1) \<and> appends T ys v1 h1 = (Ok (), v', h')"
proof (cases "appends T xs v h")
  case (fields r v1 h1)
  then show ?thesis using assms by (cases r) (simp_all add: appends_append)
qed

lemma appends_from_empty:
  assumes "appends T xs Vector_default h = (Ok (), v', h')"
  shows "vec_inv h' v' \<and> m_size v' = length xs \<and> m_capacity (m_data v') = spec_capacity (length xs)"
  using assms
proof (induction xs arbitrary: v' h' rule: rev_induct)
  case Nil
  then show ?case by (simp add: vec_inv_default Vector_default_fields)
next
  case (snoc x xs)
  from appends_prefix_Ok[OF snoc.prems] obtain v1 h1 where
    p: "appends T xs Vector_default h = (Ok (), v1, h1)" and l: "appends T [x] v1 h1 = (Ok (), v', h')"
    by blast
  note IH = snoc.IH[OF p]
  have "PushBack T x v1 h1 = (Ok (), v', h')"
  proof (cases "PushBack T x v1 h1")
    case (fields r v2 h2)
    then show ?thesis using l by (cases r) simp_all
  qed
  then obtain q where e: "EmplaceBack T x v1 h1 = (Ok q, v', h')"
    using PushBack_Ok by blast
  have inv1: "vec_inv h1 v1" using IH by simp
  note E = EmplaceBack_Ok[OF inv1 e]
  have "m_capacity (m_data v') = spec_capacity (Suc (length xs))"
  proof (cases "length xs = spec_capacity (length xs)")
    case True
    then show ?thesis using E(4) IH by (cases xs) (simp_all add: max_def)
  next
    case False
    then show ?thesis using E(4) IH by simp
  qed
  then show ?case using E(2,3) IH by simp
qed

lemma spec_capacity_pow2:
  "spec_capacity n = 0 \<and> n = 0 \<or> (\<exists>k. spec_capacity n = 2 ^ k \<and> n \<le> 2 ^ k)"
proof (induction n)
  case 0
  then show ?case by simp
next
  case (Suc n)
  from Suc.IH show ?case
  proof
    assume "spec_capacity n = 0 \<and> n = 0"
    then have "spec_capacity (Suc n) = 2 ^ 0 \<and> Suc n \<le> 2 ^ 0" by simp
    then show ?thesis by blast
  next
    assume "\<exists>k. spec_capacity n = 2 ^ k \<and> n \<le> 2 ^ k"
    then obtain k where k: "spec_capacity n = 2 ^ k" "n \<le> 2 ^ k" by blast
    show ?thesis
    proof (cases "n = spec_capacity n")
      case True
      then have "spec_capacity (Suc n) = 2 ^ Suc k \<and> Suc n \<le> 2 ^ Suc k"
        using k by (simp add: max_def)
      then show ?thesis by blast
    next
      case False
      then have "spec_capacity (Suc n) = 2 ^ k \<and> Suc n \<le> 2 ^ k"
        using k by simp
      then show ?thesis by blast
    qed
  qed
qed


subsection \<open>Evaluating the model on concrete inputs\<close>

lemma replicate_num: "replicate (numeral k) x = x # replicate (pred_numeral k) x"
  by (simp add: numeral_eq_Suc)

lemma loops_num:
  "destroy_n p (numeral k) h =
     (case destroy_at p h of
        (Ok u, h1) \<Rightarrow> destroy_n (ptr_add p 1) (pred_numeral k) h1
      | r \<Rightarrow> r)"
  "uninitialized_copy_n T src (numeral k) dst h =
     (case copy_construct T dst src h of
        (Ok u, h1) \<Rightarrow>
          (case uninitialized_copy_n T (ptr_add src 1) (pred_numeral k) (ptr_add dst 1) h1 of
             (Throw e, h2) \<Rightarrow>
               (case destroy_at dst h2 of (Ok u, h3) \<Rightarrow> (Throw e, h3) | r \<Rightarrow> r)
           | r \<Rightarrow> r)
      | r \<Rightarrow> r)"
  "uninitialized_move_n T src (numeral k) dst h =
     (case move_construct T dst src h of
        (Ok u, h1) \<Rightarrow>
          (case uninitialized_move_n T (ptr_add src 1) (pred_numeral k) (ptr_add dst 1) h1 of
             (Throw e, h2) \<Rightarrow>
               (case destroy_at dst h2 of (Ok u, h3) \<Rightarrow> (Throw e, h3) | r \<Rightarrow> r)
           | r \<Rightarrow> r)
      | r \<Rightarrow> r)"
  "uninitialized_default_construct_n T dst (numeral k) h =
     (case default_construct T dst h of
        (Ok u, h1) \<Rightarrow>
          (case uninitialized_default_construct_n T (ptr_add dst 1) (pred_numeral k) h1 of
             (Throw e, h2) \<Rightarrow>
               (case destroy_at dst h2 of (Ok u, h3) \<Rightarrow> (Throw e, h3) | r \<Rightarrow> r)
           | r \<Rightarrow> r)
      | r \<Rightarrow> r)"
  "copy_n T src (numeral k) dst h =
     (case copy_assign T dst src h of
        (Ok u, h1) \<Rightarrow> copy_n T (ptr_add src 1) (pred_numeral k) (ptr_add dst 1) h1
      | r \<Rightarrow> r)"
  "move_n T src (numeral k) dst h =
     (case move_assign T dst src h of
        (Ok u, h1) \<Rightarrow> move_n T (ptr_add src 1) (pred_numeral k) (ptr_add dst 1) h1
      | r \<Rightarrow> r)"
  "move_backward_n T first (numeral k) d_first h =
     (case move_assign T (ptr_add d_first (pred_numeral k)) (ptr_add first (pred_numeral k)) h of
        (Ok u, h1) \<Rightarrow> move_backward_n T first (pred_numeral k) d_first h1
      | r \<Rightarrow> r)"
  by (simp_all add: numeral_eq_Suc)

lemmas run_defs =
  PushBack_def EmplaceBack_def Reserve_def Resize_def PopBack_def Erase_def
  Insert_def Emplace_def InsertWithRealloc_def InsertWithRealloc_try_def InsertWithoutRealloc_def
  Vector_copy_def Vector_dtor_def copy_assignment_def Swap_def
  RawMemory_ctor_def RawMemory_dtor_def RawMemory_Swap_def Allocate_def Deallocate_def
  operator_new_def operator_delete_def GetAddress_def raw_plus_def Size_def Capacity_def
  MoveDataIfPossibleOrCopyInstead_def construct_def copy_construct_def move_construct_def
  default_construct_def destroy_at_def assign_def copy_assign_def move_assign_def tick_def raises_def
  std_move_def move_backward_def
  Vector_default_def RawMemory_default_def vec_at_def one_block_def empty_heap_def src_and_target_def two_heap_def
  plain_type_def copy_fails_on_def move_only_fails_on_def long_type_def vec_inv_def elems_def
  begin_v_def end_v_def replicate_num loops_num

subsection \<open>Copy construction and copy assignment\<close>

lemma Vector_copy_empty:
  assumes "m_size other = 0"
  shows "Vector_copy T other h = (Ok \<lparr>m_data = \<lparr>m_buffer = Null, m_capacity = 0\<rparr>, m_size = 0\<rparr>, h)"
  using assms by (simp add: Vector_copy_def RawMemory_ctor_eq GetAddress_def)

lemma Vector_copy_BadAlloc:
  assumes "m_size other \<noteq> 0" "limit h < m_size other * sizeof T"
    and "0 < sizeof T" "m_size other * sizeof T < 2 ^ 64"
  shows "Vector_copy T other h = (Throw BadAlloc, h)"
  using assms(1,2) by (simp add: Vector_copy_def RawMemory_ctor_exact[OF assms(3,4)])

lemma Vector_copy_Ptr:
  assumes "vec_inv h other" "m_size other \<noteq> 0" "m_size other * sizeof T \<le> limit h"
    "m_buffer (m_data other) = Ptr a i"
    and "0 < sizeof T" "m_size other * sizeof T < 2 ^ 64"
  shows "\<exists>t. Vector_copy T other h =
       (Ok \<lparr>m_data = \<lparr>m_buffer = Ptr (length (blocks h)) 0, m_capacity = m_size other\<rparr>,
             m_size = m_size other\<rparr>,
        set_slots (length (blocks h)) (map Live (elems h other)) (alloc (m_size other) (h\<lparr>ticks := t\<rparr>)))
     \<or> Vector_copy T other h =
       (Throw ElemExn, release (length (blocks h)) (alloc (m_size other) (h\<lparr>ticks := t\<rparr>)))
       \<and> (\<exists>t'. \<exists>x\<in>set (elems h other). raises T CopyCtor t' x)"
proof -
  note D = vec_inv_PtrD[OF assms(1,4)]
  note rc = RawMemory_ctor_exact[OF assms(5,6)]
  let ?b = "length (blocks h)"
  let ?xs = "elems h other"
  let ?n = "m_size other"
  let ?h1 = "alloc ?n h"
  have lim: "\<not> limit h < ?n * sizeof T" using assms(3) by simp
  have ab: "a \<noteq> ?b" using D(2) by simp
  have pa: "a < length (blocks ?h1)" "freed (blocks ?h1 ! a) = 0"
    "slots (blocks ?h1 ! a) = [] @ map Live ?xs @ replicate (m_capacity (m_data other) - ?n) Raw"
    using D by simp_all
  have pb: "?b < length (blocks ?h1)" "freed (blocks ?h1 ! ?b) = 0"
    "slots (blocks ?h1 ! ?b) = [] @ replicate (length ?xs) Raw @ []"
    using D(6) by simp_all
  from uninitialized_copy_n_cases[OF pa pb ab, of T] obtain t where
    c0: "uninitialized_copy_n T (Ptr a 0) (length ?xs) (Ptr ?b 0) ?h1
              = (Ok (), set_slots ?b (map Live ?xs) (?h1\<lparr>ticks := t\<rparr>))
           \<or> uninitialized_copy_n T (Ptr a 0) (length ?xs) (Ptr ?b 0) ?h1
              = (Throw ElemExn, ?h1\<lparr>ticks := t\<rparr>) \<and> (\<exists>t'. \<exists>x\<in>set ?xs. raises T CopyCtor t' x)"
    by auto
  have c: "uninitialized_copy_n T (Ptr a 0) ?n (Ptr ?b 0) ?h1
              = (Ok (), set_slots ?b (map Live ?xs) (?h1\<lparr>ticks := t\<rparr>))
           \<or> uninitialized_copy_n T (Ptr a 0) ?n (Ptr ?b 0) ?h1
              = (Throw ElemExn, ?h1\<lparr>ticks := t\<rparr>) \<and> (\<exists>t'. \<exists>x\<in>set ?xs. raises T CopyCtor t' x)"
    using c0 D(6) by simp
  from c show ?thesis
  proof
    assume "uninitialized_copy_n T (Ptr a 0) ?n (Ptr ?b 0) ?h1
              = (Ok (), set_slots ?b (map Live ?xs) (?h1\<lparr>ticks := t\<rparr>))"
    then have "Vector_copy T other h =
       (Ok \<lparr>m_data = \<lparr>m_buffer = Ptr ?b 0, m_capacity = ?n\<rparr>, m_size = ?n\<rparr>,
        set_slots ?b (map Live ?xs) (alloc ?n (h\<lparr>ticks := t\<rparr>)))"
      using assms(2,4) lim D(1) by (simp add: Vector_copy_def rc GetAddress_def)
    then show ?thesis by blast
  next
    assume th: "uninitialized_copy_n T (Ptr a 0) ?n (Ptr ?b 0) ?h1 = (Throw ElemExn, ?h1\<lparr>ticks := t\<rparr>)
       \<and> (\<exists>t'. \<exists>x\<in>set ?xs. raises T CopyCtor t' x)"
    then have "Vector_copy T other h = (Throw ElemExn, release ?b (alloc ?n (h\<lparr>ticks := t\<rparr>)))"
      using assms(2,4) lim D(1)
      by (simp add: Vector_copy_def rc GetAddress_def RawMemory_dtor_Ptr)
    then show ?thesis using th by blast
  qed
qed

text \<open>
  A copy construction whose request does not wrap returns normally when the request is
  within the limit and no copy of an element throws.
\<close>

lemma Vector_copy_success:
  assumes "vec_inv h other" "m_size other * sizeof T \<le> limit h"
    and "0 < sizeof T" "m_size other * sizeof T < 2 ^ 64"
    and "\<forall>t. \<forall>x\<in>set (elems h other). \<not> raises T CopyCtor t x"
  shows "\<exists>c h'. Vector_copy T other h = (Ok c, h')"
proof (cases "m_size other = 0")
  case True
  then show ?thesis using Vector_copy_empty[OF True, of T h] by blast
next
  case False
  then obtain a where P: "m_buffer (m_data other) = Ptr a 0"
    using vec_inv_Ptr_if_size[OF assms(1)] by auto
  from Vector_copy_Ptr[OF assms(1) False assms(2) P assms(3,4)] show ?thesis
  proof (elim exE disjE conjE, goal_cases)
    case (1 t)
    then show ?case by blast
  next
    case (2 t)
    then show ?case using assms(5) by blast
  qed
qed

text \<open>What a copy construction that returns normally leaves behind.\<close>

lemma Vector_copy_Ok:
  assumes "vec_inv h other" "Vector_copy T other h = (Ok v', h')"
    and "0 < sizeof T" "m_size other * sizeof T < 2 ^ 64"
  shows "vec_inv h' v'" and "elems h' v' = elems h other"
    and "vec_inv h' other" and "elems h' other = elems h other"
    and "m_size v' = m_size other" and "m_capacity (m_data v') = m_size other"
    and "h' = h \<and> m_buffer (m_data v') = Null \<and> m_size other = 0 \<or>
         m_buffer (m_data v') = Ptr (length (blocks h)) 0 \<and>
         (\<exists>t. h' = set_slots (length (blocks h)) (map Live (elems h other))
                  (alloc (m_size other) (h\<lparr>ticks := t\<rparr>)))"
proof -
  let ?b = "length (blocks h)"
  have "vec_inv h' v' \<and> elems h' v' = elems h other \<and> vec_inv h' other \<and>
      elems h' other = elems h other \<and> m_size v' = m_size other \<and>
      m_capacity (m_data v') = m_size other \<and>
      (h' = h \<and> m_buffer (m_data v') = Null \<and> m_size other = 0 \<or>
         m_buffer (m_data v') = Ptr ?b 0 \<and>
         (\<exists>t. h' = set_slots ?b (map Live (elems h other)) (alloc (m_size other) (h\<lparr>ticks := t\<rparr>))))"
  proof (cases "m_size other = 0")
    case True
    have e: "elems h other = []"
      using assms(1) True by (cases "m_buffer (m_data other)") (simp_all add: elems_def)
    have "v' = \<lparr>m_data = \<lparr>m_buffer = Null, m_capacity = 0\<rparr>, m_size = 0\<rparr>" "h' = h"
      using Vector_copy_empty[OF True, of T h] assms(2) by simp_all
    then show ?thesis using assms(1) True e by (simp add: vec_inv_def elems_def)
  next
    case False
    then obtain a where P: "m_buffer (m_data other) = Ptr a 0"
      using vec_inv_Ptr_if_size[OF assms(1)] by auto
    note D = vec_inv_PtrD[OF assms(1) P]
    have lim: "m_size other * sizeof T \<le> limit h"
      using Vector_copy_BadAlloc[OF False _ assms(3,4), of h] assms(2)
      by (cases "limit h < m_size other * sizeof T") simp_all
    from Vector_copy_Ptr[OF assms(1) False lim P assms(3,4)] assms(2)
    obtain t where eq:
      "v' = \<lparr>m_data = \<lparr>m_buffer = Ptr ?b 0, m_capacity = m_size other\<rparr>, m_size = m_size other\<rparr>"
      "h' = set_slots ?b (map Live (elems h other)) (alloc (m_size other) (h\<lparr>ticks := t\<rparr>))"
      by auto
    have ab: "a \<noteq> ?b" using D(2) by simp
    have sl: "slots (blocks h' ! ?b) = map Live (elems h other)
        @ replicate (m_capacity (m_data v') - length (elems h other)) Raw"
      using D(6) unfolding eq by simp
    have "vec_inv h' v'"
      using D False by (intro vec_invI[OF _ _ _ _ _ _ sl]) (simp_all add: eq)
    moreover have "elems h' v' = elems h other"
      using D by (intro elems_block[OF _ sl]) (simp_all add: eq(1))
    moreover have sla: "slots (blocks h' ! a) = map Live (elems h other)
        @ replicate (m_capacity (m_data other) - length (elems h other)) Raw"
      using D ab unfolding eq(2) by simp
    have "vec_inv h' other"
      using D ab P by (intro vec_invI[OF _ _ _ _ _ _ sla]) (simp_all add: eq(2))
    moreover have "elems h' other = elems h other"
      using D P by (intro elems_block[OF _ sla]) simp_all
    ultimately show ?thesis using eq by auto
  qed
  then show "vec_inv h' v'" "elems h' v' = elems h other" "vec_inv h' other"
    "elems h' other = elems h other" "m_size v' = m_size other"
    "m_capacity (m_data v') = m_size other"
    "h' = h \<and> m_buffer (m_data v') = Null \<and> m_size other = 0 \<or>
         m_buffer (m_data v') = Ptr (length (blocks h)) 0 \<and>
         (\<exists>t. h' = set_slots (length (blocks h)) (map Live (elems h other))
                  (alloc (m_size other) (h\<lparr>ticks := t\<rparr>)))"
    by blast+
qed

lemma Vector_copy_Throw:
  assumes "vec_inv h other" "Vector_copy T other h = (Throw e, h')"
    and "0 < sizeof T" "m_size other * sizeof T < 2 ^ 64"
  shows "h' = h \<or> (limit h' = limit h \<and>
           blocks h' = blocks h @ [\<lparr>slots = replicate (m_size other) Raw, freed = 1\<rparr>])"
proof (cases "m_size other = 0")
  case True
  then show ?thesis using Vector_copy_empty[OF True, of T h] assms(2) by simp
next
  case False
  show ?thesis
  proof (cases "limit h < m_size other * sizeof T")
    case True
    then show ?thesis using Vector_copy_BadAlloc[OF False True assms(3,4)] assms(2) by simp
  next
    case lim: False
    then have lim': "m_size other * sizeof T \<le> limit h" by simp
    obtain a where P: "m_buffer (m_data other) = Ptr a 0"
      using vec_inv_Ptr_if_size[OF assms(1)] False by auto
    from Vector_copy_Ptr[OF assms(1) False lim' P assms(3,4)] assms(2)
    obtain t where "h' = release (length (blocks h)) (alloc (m_size other) (h\<lparr>ticks := t\<rparr>))"
      by auto
    then have "h' = (release (length (blocks h)) (alloc (m_size other) h))\<lparr>ticks := t\<rparr>" by simp
    then show ?thesis by (simp add: release_alloc)
  qed
qed

lemma Vector_copy_not_Fault:
  assumes "vec_inv h other" "0 < sizeof T" "m_size other * sizeof T < 2 ^ 64"
  shows "fst (Vector_copy T other h) \<noteq> Fault"
proof (cases "m_size other = 0")
  case True
  then show ?thesis using Vector_copy_empty[OF True, of T h] by simp
next
  case False
  show ?thesis
  proof (cases "limit h < m_size other * sizeof T")
    case True
    then show ?thesis using Vector_copy_BadAlloc[OF False True assms(2,3)] by simp
  next
    case lim: False
    then have lim': "m_size other * sizeof T \<le> limit h" by simp
    obtain a where P: "m_buffer (m_data other) = Ptr a 0"
      using vec_inv_Ptr_if_size[OF assms(1)] False by auto
    from Vector_copy_Ptr[OF assms(1) False lim' P assms(2,3)] show ?thesis by auto
  qed
qed

lemma Vector_dtor_Null:
  assumes "vec_inv h v" "m_buffer (m_data v) = Null"
  shows "Vector_dtor v h = (Ok (), h)"
  using assms vec_inv_NullD[OF assms]
  by (simp add: Vector_dtor_def GetAddress_def RawMemory_dtor_Null)

lemma Vector_dtor_Ptr:
  assumes "vec_inv h v" "m_buffer (m_data v) = Ptr a i"
  shows "Vector_dtor v h = (Ok (), release a (set_slots a (replicate (m_capacity (m_data v)) Raw) h))"
proof -
  note D = vec_inv_PtrD[OF assms]
  have "destroy_n (Ptr a (length ([] :: 'a slot list))) (length (elems h v)) h
     = (Ok (), set_slots a ([] @ replicate (length (elems h v)) Raw @ replicate (m_capacity (m_data v) - m_size v) Raw) h)"
    using D by (intro destroy_n_mid) simp_all
  then have "destroy_n (Ptr a 0) (m_size v) h = (Ok (), set_slots a (replicate (m_capacity (m_data v)) Raw) h)"
    using D(5,6) by (simp add: replicate_add[symmetric])
  then show ?thesis using assms(2) D(1,2,3)
    by (simp add: Vector_dtor_def GetAddress_def RawMemory_dtor_Ptr)
qed


lemma blocks_set_alloc:
  "blocks (set_slots (length (blocks h)) S (alloc n h)) = blocks h @ [\<lparr>slots = S, freed = 0\<rparr>]"
  by (simp add: set_slots_def alloc_def)

lemma elems_put_slot_other:
  assumes "\<And>i. m_buffer (m_data w) \<noteq> Ptr a i"
  shows "elems (put_slot (Ptr a j) x h) w = elems h w"
proof (cases "m_buffer (m_data w)")
  case Null
  then show ?thesis by (simp add: elems_def)
next
  case (Ptr c i)
  then have "c \<noteq> a" using assms by auto
  then show ?thesis using Ptr by (simp add: elems_def)
qed

text \<open>Copy assignment from a source longer than the capacity of the target.\<close>

lemma copy_assignment_realloc_step:
  assumes "vec_inv h v" "vec_inv h other" "m_capacity (m_data v) < m_size other"
    "Vector_copy T other h = (Ok temp, h1)"
    and "0 < sizeof T" "m_size other * sizeof T < 2 ^ 64"
  shows "vec_inv h1 v" and "elems h1 v = elems h v"
    and "copy_assignment T v other h =
      (Ok (), temp,
       case m_buffer (m_data v) of
         Null \<Rightarrow> h1
       | Ptr a i \<Rightarrow> release a (set_slots a (replicate (m_capacity (m_data v)) Raw) h1))"
proof -
  note C = Vector_copy_Ok[OF assms(2,4,5,6)]
  have n0: "m_size other \<noteq> 0" using assms(3) by simp
  from C(7) n0 obtain t where
    h1: "h1 = set_slots (length (blocks h)) (map Live (elems h other)) (alloc (m_size other) (h\<lparr>ticks := t\<rparr>))"
    by auto
  have "blocks h1 = blocks h @ [\<lparr>slots = map Live (elems h other), freed = 0\<rparr>]"
    using blocks_set_alloc[of "h\<lparr>ticks := t\<rparr>" "map Live (elems h other)" "m_size other"] h1 by simp
  from vec_inv_frame[OF assms(1) this] show inv1: "vec_inv h1 v" and "elems h1 v = elems h v"
    by simp_all
  have t: "temp\<lparr>m_size := Size other\<rparr> = temp" using C(5) by (simp add: Size_def)
  show "copy_assignment T v other h =
      (Ok (), temp,
       case m_buffer (m_data v) of
         Null \<Rightarrow> h1
       | Ptr a i \<Rightarrow> release a (set_slots a (replicate (m_capacity (m_data v)) Raw) h1))"
  proof (cases "m_buffer (m_data v)")
    case Null
    then show ?thesis using assms(3,4) Vector_dtor_Null[OF inv1 Null] t
      by (simp add: copy_assignment_def Swap_eq)
  next
    case (Ptr a i)
    then show ?thesis using assms(3,4) Vector_dtor_Ptr[OF inv1 Ptr] t
      by (simp add: copy_assignment_def Swap_eq)
  qed
qed

lemma copy_assignment_realloc_Throw:
  assumes "vec_inv h v" "vec_inv h other" "m_capacity (m_data v) < m_size other"
    "copy_assignment T v other h = (Throw e, v', h')"
    and "0 < sizeof T" "m_size other * sizeof T < 2 ^ 64"
  shows "v' = v \<and> (h' = h \<or> (limit h' = limit h \<and>
           blocks h' = blocks h @ [\<lparr>slots = replicate (m_size other) Raw, freed = 1\<rparr>]))"
proof (cases "Vector_copy T other h")
  case (Pair r h1)
  show ?thesis
  proof (cases r)
    case (Ok temp)
    then show ?thesis
      using copy_assignment_realloc_step(3)[OF assms(1,2,3) _ assms(5,6), of temp h1] Pair assms(4) by simp
  next
    case (Throw e1)
    then have "copy_assignment T v other h = (Throw e1, v, h1)"
      using assms(3) Pair by (simp add: copy_assignment_def)
    then have "v' = v" "h' = h1" "Vector_copy T other h = (Throw e1, h')"
      using assms(4) Pair Throw by simp_all
    then show ?thesis using Vector_copy_Throw[OF assms(2) _ assms(5,6)] by blast
  next
    case Fault
    then show ?thesis using Vector_copy_not_Fault[OF assms(2,5,6)] Pair by simp
  qed
qed

lemma copy_assignment_realloc_Ok:
  assumes "vec_inv h v" "vec_inv h other" "m_capacity (m_data v) < m_size other"
    "copy_assignment T v other h = (Ok (), v', h')"
    and "0 < sizeof T" "m_size other * sizeof T < 2 ^ 64"
  shows "\<exists>h1. Vector_copy T other h = (Ok v', h1)"
    and "vec_inv h' v'" and "elems h' v' = elems h other" and "m_size v' = m_size other"
    and "vec_inv h' other" and "elems h' other = elems h other"
    and "\<And>a i. m_buffer (m_data v) = Ptr a i \<Longrightarrow>
           blocks h' ! a = \<lparr>slots = replicate (m_capacity (m_data v)) Raw, freed = 1\<rparr>"
proof -
  obtain r h1 where P: "Vector_copy T other h = (r, h1)" by (cases "Vector_copy T other h") auto
  have "\<exists>temp. r = Ok temp"
  proof (cases r)
    case (Ok temp) then show ?thesis by simp
  next
    case (Throw e1)
    then show ?thesis using assms(3,4) P by (simp add: copy_assignment_def)
  next
    case Fault
    then show ?thesis using Vector_copy_not_Fault[OF assms(2,5,6)] P by simp
  qed
  then obtain temp where VC: "Vector_copy T other h = (Ok temp, h1)" using P by auto
  note S = copy_assignment_realloc_step[OF assms(1,2,3) VC assms(5,6)]
  note C = Vector_copy_Ok[OF assms(2) VC assms(5,6)]
  have v': "v' = temp" using S(3) assms(4) by simp
  have h': "h' = (case m_buffer (m_data v) of
         Null \<Rightarrow> h1
       | Ptr a i \<Rightarrow> release a (set_slots a (replicate (m_capacity (m_data v)) Raw) h1))"
    using S(3) assms(4) by simp
  show "\<exists>h1. Vector_copy T other h = (Ok v', h1)" using VC v' by blast
  show "m_size v' = m_size other" using C(5) v' by simp
  have n0: "m_size other \<noteq> 0" using assms(3) by simp
  have tb: "m_buffer (m_data temp) = Ptr (length (blocks h)) 0" using C(7) n0 by auto
  have len1: "length (blocks h) < length (blocks h1)"
    using vec_inv_PtrD(2)[OF C(1) tb] .
  have frame: "vec_inv h' w \<and> elems h' w = elems h1 w"
    if w: "vec_inv h1 w" and diff: "\<And>a i j. m_buffer (m_data v) = Ptr a i \<Longrightarrow> m_buffer (m_data w) \<noteq> Ptr a j"
    for w
  proof (cases "m_buffer (m_data v)")
    case Null
    then show ?thesis using h' w by simp
  next
    case (Ptr a i)
    have fr: "c < length (blocks h') \<and> blocks h' ! c = blocks h1 ! c" if "m_buffer (m_data w) = Ptr c j" for c j
    proof -
      have "c \<noteq> a" using diff[OF Ptr, of j] that by auto
      moreover have "c < length (blocks h1)" using vec_inv_PtrD(2)[OF w that] .
      ultimately show ?thesis using h' Ptr by simp
    qed
    have "vec_inv h' w" by (rule vec_inv_other_blocks(1)[OF w]) (rule fr)
    moreover have "elems h' w = elems h1 w" by (rule vec_inv_other_blocks(2)[OF w]) (rule fr)
    ultimately show ?thesis by blast
  qed
  have d1: "m_buffer (m_data temp) \<noteq> Ptr a j" if "m_buffer (m_data v) = Ptr a i" for a i j
    using vec_inv_PtrD(2)[OF assms(1) that] tb by auto
  have d2: "m_buffer (m_data other) \<noteq> Ptr a j" if va: "m_buffer (m_data v) = Ptr a i" for a i j
  proof
    assume oa: "m_buffer (m_data other) = Ptr a j"
    have "length (slots (blocks h ! a)) = m_capacity (m_data v)"
      using vec_inv_PtrD(5,6,7)[OF assms(1) va] by simp
    moreover have "length (slots (blocks h ! a)) = m_capacity (m_data other)"
      using vec_inv_PtrD(5,6,7)[OF assms(2) oa] by simp
    ultimately show False using vec_inv_PtrD(5)[OF assms(2) oa] assms(3) by simp
  qed
  from frame[OF C(1) d1] show "vec_inv h' v'" "elems h' v' = elems h other"
    using v' C(2) by simp_all
  from frame[OF C(3) d2] show "vec_inv h' other" "elems h' other = elems h other"
    using C(4) by simp_all
  show "blocks h' ! a = \<lparr>slots = replicate (m_capacity (m_data v)) Raw, freed = 1\<rparr>"
    if va: "m_buffer (m_data v) = Ptr a i" for a i
  proof -
    note D = vec_inv_PtrD[OF S(1) va]
    have "slots (blocks h' ! a) = replicate (m_capacity (m_data v)) Raw" "freed (blocks h' ! a) = 1"
      using h' va D(2,3) by simp_all
    then show ?thesis by simp
  qed
qed

text \<open>
  Copy assignment from a source longer than the capacity of the target returns normally
  whenever the copy construction of the temporary does.
\<close>

lemma copy_assignment_realloc_success:
  assumes "vec_inv h v" "vec_inv h other" "m_capacity (m_data v) < m_size other"
    and "m_size other * sizeof T \<le> limit h"
    and "0 < sizeof T" "m_size other * sizeof T < 2 ^ 64"
    and "\<forall>t. \<forall>x\<in>set (elems h other). \<not> raises T CopyCtor t x"
  shows "\<exists>v' h'. copy_assignment T v other h = (Ok (), v', h')"
proof -
  from Vector_copy_success[OF assms(2,4,5,6,7)] obtain temp h1 where
    VC: "Vector_copy T other h = (Ok temp, h1)" by blast
  from copy_assignment_realloc_step(3)[OF assms(1,2,3) VC assms(5,6)] show ?thesis by blast
qed

subsection \<open>Erase\<close>

lemma assign_mid:
  assumes "a < length (blocks h)" "freed (blocks h ! a) = 0" "slots (blocks h ! a) = pre @ Live d # post"
  shows "assign T k (Ptr a (length pre)) x h =
     (if raises T k (ticks h) x then (Throw ElemExn, h\<lparr>ticks := Suc (ticks h)\<rparr>)
      else (Ok (), set_slots a (pre @ Live x # post) (h\<lparr>ticks := Suc (ticks h)\<rparr>)))"
  using assms by (simp add: assign_def tick_def set_slots_def)

lemma move_assign_adjacent:
  assumes "a < length (blocks h)" "freed (blocks h ! a) = 0"
    "slots (blocks h ! a) = P @ Live d # Live y # R"
  shows "move_assign T (Ptr a (length P)) (Ptr a (Suc (length P))) h =
     (if raises T MoveAssign (ticks h) y then (Throw ElemExn, h\<lparr>ticks := Suc (ticks h)\<rparr>)
      else (Ok (), set_slots a (P @ Live y # Live (residue T y) # R) (h\<lparr>ticks := Suc (ticks h)\<rparr>)))"
proof -
  let ?h0 = "h\<lparr>ticks := Suc (ticks h)\<rparr>"
  let ?h1 = "set_slots a (P @ Live y # Live y # R) ?h0"
  have s1: "slot_at h (Ptr a (Suc (length P))) = Some (Live y)"
    using slot_at_mid[OF assms(1,2), of "P @ [Live d]" "Live y" R] assms(3) by simp
  have as: "assign T MoveAssign (Ptr a (length P)) y h =
     (if raises T MoveAssign (ticks h) y then (Throw ElemExn, ?h0) else (Ok (), ?h1))"
    using assign_mid[OF assms(1,2,3)] .
  have "slots (blocks ?h1 ! a) = (P @ [Live y]) @ Live y # R"
    using assms(1) by simp
  from put_slot_mid[OF this, of "Live (residue T y)"]
  have ps: "put_slot (Ptr a (Suc (length P))) (Live (residue T y)) ?h1
      = set_slots a (P @ Live y # Live (residue T y) # R) ?h0"
    by simp
  show ?thesis
    using ps by (simp add: move_assign_def s1 as del: put_slot.simps slot_at.simps)
qed

lemma move_n_shift_left:
  assumes "a < length (blocks h)" "freed (blocks h ! a) = 0"
    "slots (blocks h ! a) = P @ Live d # map Live ys @ Q"
  shows "(\<exists>t. move_n T (Ptr a (Suc (length P))) (length ys) (Ptr a (length P)) h
            = (Ok (), set_slots a (P @ map Live ys @ Live (last (d # map (residue T) ys)) # Q) (h\<lparr>ticks := t\<rparr>)))
       \<or> (\<exists>h'. move_n T (Ptr a (Suc (length P))) (length ys) (Ptr a (length P)) h = (Throw ElemExn, h'))
         \<and> (\<exists>t'. \<exists>y\<in>set ys. raises T MoveAssign t' y)"
  using assms
proof (induction ys arbitrary: P d h)
  case Nil
  have "set_slots a (P @ Live d # Q) (h\<lparr>ticks := ticks h\<rparr>) = h"
    using Nil.prems(3) by (simp add: set_slots_id)
  then show ?case by (intro disjI1 exI[of _ "ticks h"]) simp
next
  case (Cons y ys)
  let ?h1 = "set_slots a (P @ Live y # Live (residue T y) # map Live ys @ Q) (h\<lparr>ticks := Suc (ticks h)\<rparr>)"
  have ma: "move_assign T (Ptr a (length P)) (Ptr a (Suc (length P))) h =
     (if raises T MoveAssign (ticks h) y then (Throw ElemExn, h\<lparr>ticks := Suc (ticks h)\<rparr>)
      else (Ok (), ?h1))"
    using move_assign_adjacent[OF Cons.prems(1,2), of P d y "map Live ys @ Q" T] Cons.prems(3) by simp
  show ?case
  proof (cases "raises T MoveAssign (ticks h) y")
    case True
    then have "\<exists>t'. \<exists>z\<in>set (y # ys). raises T MoveAssign t' z" by auto
    moreover have "\<exists>h'. move_n T (Ptr a (Suc (length P))) (length (y # ys)) (Ptr a (length P)) h = (Throw ElemExn, h')"
      using ma True by simp
    ultimately show ?thesis by blast
  next
    case False
    have p1: "a < length (blocks ?h1)" "freed (blocks ?h1 ! a) = 0"
      "slots (blocks ?h1 ! a) = (P @ [Live y]) @ Live (residue T y) # map Live ys @ Q"
      using Cons.prems by simp_all
    from Cons.IH[OF p1]
    have "(\<exists>t. move_n T (Ptr a (Suc (Suc (length P)))) (length ys) (Ptr a (Suc (length P))) ?h1
            = (Ok (), set_slots a ((P @ [Live y]) @ map Live ys @ Live (last (residue T y # map (residue T) ys)) # Q) (?h1\<lparr>ticks := t\<rparr>)))
       \<or> (\<exists>h'. move_n T (Ptr a (Suc (Suc (length P)))) (length ys) (Ptr a (Suc (length P))) ?h1 = (Throw ElemExn, h'))
         \<and> (\<exists>t'. \<exists>y\<in>set ys. raises T MoveAssign t' y)"
      by simp
    then show ?thesis
    proof (elim disjE exE conjE bexE)
      fix t
      assume "move_n T (Ptr a (Suc (Suc (length P)))) (length ys) (Ptr a (Suc (length P))) ?h1
            = (Ok (), set_slots a ((P @ [Live y]) @ map Live ys @ Live (last (residue T y # map (residue T) ys)) # Q) (?h1\<lparr>ticks := t\<rparr>))"
      then have "move_n T (Ptr a (Suc (length P))) (length (y # ys)) (Ptr a (length P)) h
            = (Ok (), set_slots a (P @ map Live (y # ys) @ Live (last (d # map (residue T) (y # ys))) # Q) (h\<lparr>ticks := t\<rparr>))"
        using ma False by simp
      then show ?thesis by blast
    next
      fix h' t' z
      assume "move_n T (Ptr a (Suc (Suc (length P)))) (length ys) (Ptr a (Suc (length P))) ?h1 = (Throw ElemExn, h')"
        and z: "z \<in> set ys" "raises T MoveAssign t' z"
      then have "move_n T (Ptr a (Suc (length P))) (length (y # ys)) (Ptr a (length P)) h = (Throw ElemExn, h')"
        using ma False by simp
      moreover have "\<exists>t'. \<exists>z\<in>set (y # ys). raises T MoveAssign t' z" using z by auto
      ultimately show ?thesis by blast
    qed
  qed
qed

lemma vec_inv_begin_end:
  assumes "vec_inv h v"
  shows "begin_v v = end_v v \<longleftrightarrow> m_size v = 0"
  using assms by (cases "m_buffer (m_data v)") (auto simp add: begin_v_def end_v_def GetAddress_def vec_inv_def)

lemma Erase_empty:
  assumes "vec_inv h v" "m_size v = 0"
  shows "Erase T pos v h = (Ok pos, v, h)"
  using vec_inv_begin_end[OF assms(1)] assms(2) by (simp add: Erase_def)

lemma Erase_live:
  assumes "vec_inv h v" "m_buffer (m_data v) = Ptr a i" "k < m_size v"
  shows "(\<exists>t. Erase T (Ptr a k) v h =
            (Ok (Ptr a k), v\<lparr>m_size := m_size v - 1\<rparr>,
             set_slots a (map Live (take k (elems h v) @ drop (Suc k) (elems h v))
                @ replicate (Suc (m_capacity (m_data v) - m_size v)) Raw) (h\<lparr>ticks := t\<rparr>)))
       \<or> (\<exists>h'. Erase T (Ptr a k) v h = (Throw ElemExn, v, h'))
         \<and> (\<exists>t'. \<exists>y\<in>set (drop (Suc k) (elems h v)). raises T MoveAssign t' y)"
proof -
  note D = vec_inv_PtrD[OF assms(1,2)]
  let ?xs = "elems h v"
  let ?P = "map Live (take k ?xs)"
  let ?ys = "drop (Suc k) ?xs"
  let ?Q = "replicate (m_capacity (m_data v) - m_size v) Raw :: 'a slot list"
  have kl: "k < length ?xs" using assms(3) D(6) by simp
  have xs: "?xs = take k ?xs @ ?xs ! k # ?ys" using kl by (simp add: id_take_nth_drop)
  have "map Live ?xs = ?P @ Live (?xs ! k) # map Live ?ys"
    using arg_cong[OF xs, of "map Live"] by simp
  then have sl: "slots (blocks h ! a) = ?P @ Live (?xs ! k) # map Live ?ys @ ?Q"
    using D(7) by simp
  have lp: "length ?P = k" using kl by simp
  have ly: "length ?ys = m_size v - Suc k" using D(6) by simp
  have ne: "begin_v v \<noteq> end_v v" using vec_inv_begin_end[OF assms(1)] assms(3) by simp
  have dist: "distance (Ptr a (Suc k)) (end_v v) = Some (m_size v - Suc k)"
    using assms(2,3) D(1) by (simp add: end_v_def GetAddress_def)
  from move_n_shift_left[OF D(2,3) sl, of T]
  have "(\<exists>t. move_n T (Ptr a (Suc k)) (m_size v - Suc k) (Ptr a k) h
            = (Ok (), set_slots a (?P @ map Live ?ys @ Live (last (?xs ! k # map (residue T) ?ys)) # ?Q) (h\<lparr>ticks := t\<rparr>)))
       \<or> (\<exists>h'. move_n T (Ptr a (Suc k)) (m_size v - Suc k) (Ptr a k) h = (Throw ElemExn, h'))
         \<and> (\<exists>t'. \<exists>y\<in>set ?ys. raises T MoveAssign t' y)"
    unfolding lp ly .
  then show ?thesis
  proof (elim disjE exE conjE bexE)
    fix t
    let ?z = "last (?xs ! k # map (residue T) ?ys)"
    let ?h1 = "set_slots a (?P @ map Live ?ys @ Live ?z # ?Q) (h\<lparr>ticks := t\<rparr>)"
    assume mv: "move_n T (Ptr a (Suc k)) (m_size v - Suc k) (Ptr a k) h = (Ok (), ?h1)"
    have "destroy_at (Ptr a (length (?P @ map Live ?ys))) ?h1
        = (Ok (), set_slots a ((?P @ map Live ?ys) @ Raw # ?Q) ?h1)"
      using D(2,3) by (intro destroy_at_mid) simp_all
    moreover have "length (?P @ map Live ?ys) = m_size v - 1" using kl D(6) by simp
    ultimately have da: "destroy_at (Ptr a (m_size v - 1)) ?h1
        = (Ok (), set_slots a (map Live (take k ?xs @ ?ys) @ replicate (Suc (m_capacity (m_data v) - m_size v)) Raw)
             (h\<lparr>ticks := t\<rparr>))"
      by simp
    have "Erase T (Ptr a k) v h =
            (Ok (Ptr a k), v\<lparr>m_size := m_size v - 1\<rparr>,
             set_slots a (map Live (take k ?xs @ ?ys) @ replicate (Suc (m_capacity (m_data v) - m_size v)) Raw)
               (h\<lparr>ticks := t\<rparr>))"
      using ne dist mv da assms(2,3) D(1)
      by (simp add: Erase_def std_move_def PopBack_def raw_plus_def)
    then show ?thesis by blast
  next
    fix h' t' z
    assume "move_n T (Ptr a (Suc k)) (m_size v - Suc k) (Ptr a k) h = (Throw ElemExn, h')"
      and z: "z \<in> set ?ys" "raises T MoveAssign t' z"
    then have "Erase T (Ptr a k) v h = (Throw ElemExn, v, h')"
      using ne dist by (simp add: Erase_def std_move_def)
    then show ?thesis using z by blast
  qed
qed

section \<open>Move construction and move assignment\<close>

text \<open>
  C1 (as the code has it).  Move construction leaves the source as a default-constructed
  vector (size 0, capacity 0, null buffer) and gives the new vector the source's buffer,
  capacity and size, hence its element sequence.  Move assignment \<^verbatim>\<open>v = std::move(s)\<close>
  exchanges the two vectors: \<open>v\<close> takes over the buffer, capacity and size of \<open>s\<close>, and
  \<open>s\<close> is left with those of \<open>v\<close>, so it holds the former elements of \<open>v\<close>.  Both
  are functions of the two vector headers alone: no heap is read or written, so no element
  is copied, moved or destroyed.
\<close>

theorem move_exchanges_headers:
  "Vector_move s = (s, Vector_default) \<and>
   m_size (snd (Vector_move s)) = 0 \<and>
   m_capacity (m_data (snd (Vector_move s))) = 0 \<and>
   m_buffer (m_data (snd (Vector_move s))) = Null \<and>
   vec_inv h (snd (Vector_move s)) \<and>
   elems h (snd (Vector_move s)) = [] \<and>
   elems h (fst (Vector_move s)) = elems h s \<and>
   move_assignment v s = (s, v) \<and>
   elems h (fst (move_assignment v s)) = elems h s \<and>
   elems h (snd (move_assignment v s)) = elems h v"
  by (simp add: Vector_move_def move_assignment_def Swap_eq elems_Vector_default
      vec_inv_default Vector_default_fields)

text \<open>
  C1 as stated fails for move assignment: with \<open>v = [1]\<close> and \<open>s = [2]\<close>, both well
  formed, the moved-from \<open>s\<close> has size 1 afterwards, owns the block that was \<open>v\<close>'s, and
  holds \<open>[1]\<close>.
\<close>

theorem move_assignment_source_not_empty:
  "vec_inv two_heap (vec_at 0 1 1) \<and> vec_inv two_heap (vec_at 1 1 1) \<and>
   elems two_heap (vec_at 0 1 1) = [1] \<and> elems two_heap (vec_at 1 1 1) = [2] \<and>
   m_size (snd (move_assignment (vec_at 0 1 1) (vec_at 1 1 1))) = 1 \<and>
   m_buffer (m_data (snd (move_assignment (vec_at 0 1 1) (vec_at 1 1 1)))) = Ptr 0 0 \<and>
   elems two_heap (snd (move_assignment (vec_at 0 1 1) (vec_at 1 1 1))) = [1] \<and>
   elems two_heap (fst (move_assignment (vec_at 0 1 1) (vec_at 1 1 1))) = [2]"
  by (simp add: move_assignment_def Swap_eq vec_inv_def elems_def two_heap_def vec_at_def)

section \<open>Appending\<close>

text \<open>
  C2.  For every run of \<open>N\<close> appends that all return normally, starting from a
  default-constructed vector: the size is \<open>N\<close> afterwards; after each prefix of \<open>i\<close>
  appends the size is \<open>i\<close> and the capacity is \<open>spec_capacity i\<close>, the capacity that the
  policy "unchanged unless size equals capacity, then \<open>max 1 (2 * capacity)\<close>" yields; and
  every value of \<open>spec_capacity\<close> is 0 or a power of two.
\<close>

theorem appends_size_and_capacity:
  assumes "appends T xs Vector_default h = (Ok (), v', h')"
  shows "Size v' = length xs \<and> Capacity v' = spec_capacity (length xs) \<and>
     (\<forall>i \<le> length xs. \<exists>vi hi. appends T (take i xs) Vector_default h = (Ok (), vi, hi) \<and>
         Size vi = i \<and> Capacity vi = spec_capacity i) \<and>
     (\<forall>i. spec_capacity i = 0 \<or> (\<exists>k. spec_capacity i = 2 ^ k))"
proof -
  have "\<exists>vi hi. appends T (take i xs) Vector_default h = (Ok (), vi, hi) \<and>
         Size vi = i \<and> Capacity vi = spec_capacity i" if "i \<le> length xs" for i
  proof -
    have "appends T (take i xs @ drop i xs) Vector_default h = (Ok (), v', h')"
      using assms by simp
    from appends_prefix_Ok[OF this] obtain vi hi where
      "appends T (take i xs) Vector_default h = (Ok (), vi, hi)" by blast
    then show ?thesis using appends_from_empty[of T "take i xs" h vi hi] that
      by (simp add: Size_def Capacity_def min_absorb2)
  qed
  moreover have "spec_capacity i = 0 \<or> (\<exists>k. spec_capacity i = 2 ^ k)" for i
    using spec_capacity_pow2[of i] by blast
  ultimately show ?thesis
    using appends_from_empty[OF assms] by (simp add: Size_def Capacity_def)
qed

text \<open>Three appends to an empty vector: size 3, capacity 4 after the capacities 1 and 2.\<close>

theorem appends_size_and_capacity_witness:
  "appends plain_type [Val 1, Val 2, Val 3] Vector_default empty_heap =
     (Ok (), vec_at 2 4 3,
      \<lparr>blocks = [\<lparr>slots = [Raw], freed = 1\<rparr>, \<lparr>slots = [Raw, Raw], freed = 1\<rparr>,
                 \<lparr>slots = [Live 1, Live 2, Live 3, Raw], freed = 0\<rparr>], limit = 16, ticks = 6\<rparr>) \<and>
   Size (vec_at 2 4 3) = 3 \<and> Capacity (vec_at 2 4 3) = spec_capacity 3 \<and> spec_capacity 3 = 4"
proof -
  have run: "appends plain_type [Val 1, Val 2, Val 3] Vector_default empty_heap =
     (Ok (), vec_at 2 4 3,
      \<lparr>blocks = [\<lparr>slots = [Raw], freed = 1\<rparr>, \<lparr>slots = [Raw, Raw], freed = 1\<rparr>,
                 \<lparr>slots = [Live 1, Live 2, Live 3, Raw], freed = 0\<rparr>], limit = 16, ticks = 6\<rparr>)"
    by (simp add: run_defs)
  from appends_size_and_capacity[OF run]
  have "Size (vec_at 2 4 3) = length [Val 1, Val 2, Val (3::nat)]"
    and "Capacity (vec_at 2 4 3) = spec_capacity (length [Val 1, Val 2, Val (3::nat)])"
    by blast+
  moreover have "spec_capacity 3 = 4" by (simp add: eval_nat_numeral)
  ultimately show ?thesis using run by simp
qed

section \<open>Reserve and Resize\<close>

text \<open>
  C8 (as the code has it).  For a well-formed vector and a request \<open>n\<close> that is at most the capacity or
  whose size in bytes \<open>n * sizeof T\<close> is representable in \<^verbatim>\<open>size_t\<close>: \<open>Reserve n\<close>
  never ends in undefined behaviour and never decreases the capacity, whether it returns or
  throws.  If \<open>n \<le> Capacity\<close> it returns normally and leaves the vector and the heap as
  they are.  Otherwise it throws \<^verbatim>\<open>std::bad_alloc\<close> and changes nothing when the request
  exceeds what the allocator serves; it returns normally when the allocator serves the
  request and no transfer of an element throws; and whenever it returns normally, the
  capacity is at least \<open>n\<close>, and the size and the element sequence are unchanged.
\<close>

theorem Reserve_never_shrinks:
  assumes "vec_inv h v" "Reserve T n v h = (r, v', h')"
    and "n \<le> Capacity v \<or> 0 < sizeof T \<and> n * sizeof T < 2 ^ 64"
  shows "Capacity v \<le> Capacity v' \<and> r \<noteq> Fault \<and>
     (n \<le> Capacity v \<longrightarrow> r = Ok () \<and> v' = v \<and> h' = h) \<and>
     (Capacity v < n \<longrightarrow>
        (r = Ok () \<longrightarrow>
           n \<le> Capacity v' \<and> Size v' = Size v \<and> elems h' v' = elems h v \<and> vec_inv h' v') \<and>
        (limit h < n * sizeof T \<longrightarrow> r = Throw BadAlloc \<and> v' = v \<and> h' = h) \<and>
        (n * sizeof T \<le> limit h \<longrightarrow>
           (\<forall>t. \<forall>x\<in>set (elems h v). \<not> raises T (transfer_kind T) t x) \<longrightarrow> r = Ok ()))"
proof (cases "n \<le> m_capacity (m_data v)")
  case True
  then show ?thesis using assms(2) by (auto simp add: Reserve_noop Capacity_def)
next
  case False
  then have gr: "m_capacity (m_data v) < n" by simp
  from False assms(3) have sz: "0 < sizeof T" "n * sizeof T < 2 ^ 64" by (simp_all add: Capacity_def)
  have b: "n \<le> m_capacity (m_data v) \<or> 0 < sizeof T \<and> n * sizeof T < 2 ^ 64" using sz by simp
  have nf: "r \<noteq> Fault" using Reserve_not_Fault[OF assms(1) b] assms(2) by simp
  have bad: "r = Throw BadAlloc \<and> v' = v \<and> h' = h" if "limit h < n * sizeof T"
    using Reserve_BadAlloc[OF gr that sz] assms(2) by simp
  have good: "r = Ok ()"
    if "n * sizeof T \<le> limit h" "\<forall>t. \<forall>x\<in>set (elems h v). \<not> raises T (transfer_kind T) t x"
    using Reserve_grow_success[OF assms(1) gr that(1) sz that(2)] assms(2) by auto
  have cap: "Capacity v \<le> Capacity v' \<and>
      (r = Ok () \<longrightarrow>
           n \<le> Capacity v' \<and> Size v' = Size v \<and> elems h' v' = elems h v \<and> vec_inv h' v')"
  proof (cases r)
    case (Ok u)
    then have R: "Reserve T n v h = (Ok (), v', h')" using assms(2) by simp
    note G = Reserve_grow_Ok[OF assms(1) gr R sz]
    show ?thesis using G(1,2,3) gr Ok by (simp add: Capacity_def Size_def)
  next
    case (Throw e)
    then have "Reserve T n v h = (Throw e, v', h')" using assms(2) by simp
    then have "v' = v" by (rule Reserve_Throw_same[OF assms(1) _ sz])
    then show ?thesis using Throw by simp
  next
    case Fault
    then show ?thesis using nf by simp
  qed
  show ?thesis using gr nf bad good cap by (simp add: Capacity_def)
qed

text \<open>A vector \<open>[1, 2]\<close> of capacity 2: \<open>Reserve 4\<close> grows it, \<open>Reserve 1\<close> does nothing.\<close>

theorem Reserve_never_shrinks_witness:
  "vec_inv (one_block [Live 1, Live 2]) (vec_at 0 2 2) \<and>
   Reserve plain_type 4 (vec_at 0 2 2) (one_block [Live 1, Live 2]) =
     (Ok (), vec_at 1 4 2,
      \<lparr>blocks = [\<lparr>slots = [Raw, Raw], freed = 1\<rparr>,
                 \<lparr>slots = [Live 1, Live 2, Raw, Raw], freed = 0\<rparr>], limit = 16, ticks = 2\<rparr>) \<and>
   Capacity (vec_at 0 2 2) < 4 \<and> 4 \<le> Capacity (vec_at 1 4 2) \<and>
   Size (vec_at 1 4 2) = Size (vec_at 0 2 2) \<and>
   Reserve plain_type 1 (vec_at 0 2 2) (one_block [Live 1, Live 2]) =
     (Ok (), vec_at 0 2 2, one_block [Live 1, Live 2]) \<and>
   1 \<le> Capacity (vec_at 0 2 2)"
proof -
  have inv: "vec_inv (one_block [Live 1, Live 2]) (vec_at 0 2 2)"
    by (simp add: run_defs)
  have r4: "Reserve plain_type 4 (vec_at 0 2 2) (one_block [Live 1, Live 2]) =
     (Ok (), vec_at 1 4 2,
      \<lparr>blocks = [\<lparr>slots = [Raw, Raw], freed = 1\<rparr>,
                 \<lparr>slots = [Live 1, Live 2, Raw, Raw], freed = 0\<rparr>], limit = 16, ticks = 2\<rparr>)"
    by (simp add: run_defs)
  have r1: "Reserve plain_type 1 (vec_at 0 2 2) (one_block [Live 1, Live 2]) =
     (Ok (), vec_at 0 2 2, one_block [Live 1, Live 2])"
    by (simp add: run_defs)
  have c: "Capacity (vec_at 0 2 2) < 4" "1 \<le> Capacity (vec_at 0 2 2)"
    by (simp_all add: Capacity_def vec_at_def)
  have b4: "4 \<le> Capacity (vec_at 0 2 2) \<or> 0 < sizeof plain_type \<and> 4 * sizeof plain_type < 2 ^ 64"
    by (simp add: plain_type_def)
  have b1: "1 \<le> Capacity (vec_at 0 2 2) \<or> 0 < sizeof plain_type \<and> 1 * sizeof plain_type < 2 ^ 64"
    by (simp add: plain_type_def)
  from Reserve_never_shrinks[OF inv r4 b4] c(1)
  have "4 \<le> Capacity (vec_at 1 4 2)" "Size (vec_at 1 4 2) = Size (vec_at 0 2 2)"
    by blast+
  moreover from Reserve_never_shrinks[OF inv r1 b1] c(2)
  have "Ok () = (Ok () :: unit outcome)" by blast
  ultimately show ?thesis using inv r4 r1 c by blast
qed

text \<open>
  C8 as stated, for every \<open>n\<close>, fails where the product in \<^verbatim>\<open>Allocate\<close> wraps: for an
  element type of 8 bytes, \<open>Reserve (2 ^ 61)\<close> on the vector \<open>[1]\<close> requests 0 bytes,
  gets a block with room for no object, and transfers the first element to a place outside
  it, which is undefined behaviour.
\<close>

theorem Reserve_wrapped_request_faults:
  "vec_inv (one_block [Live 1]) (vec_at 0 1 1) \<and>
   fst (Reserve long_type (2 ^ 61) (vec_at 0 1 1) (one_block [Live 1])) = Fault"
  by (simp add: run_defs)

text \<open>
  C10 (as the code has it).  For a well-formed vector and \<open>n\<close> greater than its capacity, with \<open>n * sizeof T\<close>
  representable in \<^verbatim>\<open>size_t\<close>: a \<open>Reserve n\<close> that returns normally leaves the capacity
  exactly \<open>n\<close>, and so does a \<open>Resize n\<close> that returns normally.  \<open>Reserve n\<close> does
  return normally, with capacity \<open>n\<close>, when the allocator serves \<open>n * sizeof T\<close> bytes
  and no transfer of an element throws; \<open>Resize n\<close> does when in addition the default
  constructor does not throw.
\<close>

theorem Reserve_sets_exact_capacity:
  assumes "vec_inv h v" "Capacity v < n" "0 < sizeof T" "n * sizeof T < 2 ^ 64"
  shows "(Reserve T n v h = (Ok (), v', h') \<longrightarrow> Capacity v' = n) \<and>
         (Resize T n v h = (Ok (), v2, h2) \<longrightarrow> Capacity v2 = n) \<and>
         (n * sizeof T \<le> limit h \<longrightarrow>
          (\<forall>t. \<forall>x\<in>set (elems h v). \<not> raises T (transfer_kind T) t x) \<longrightarrow>
            (\<exists>w h1. Reserve T n v h = (Ok (), w, h1) \<and> Capacity w = n) \<and>
            ((\<forall>d. dflt T = Some d \<longrightarrow> (\<forall>t. \<not> raises T DefaultCtor t d)) \<longrightarrow>
               (\<exists>w h3. Resize T n v h = (Ok (), w, h3) \<and> Capacity w = n)))"
proof -
  have gr: "m_capacity (m_data v) < n" using assms(2) by (simp add: Capacity_def)
  note sz = assms(3,4)
  have A: "Capacity v' = n" if "Reserve T n v h = (Ok (), v', h')"
    using Reserve_grow_Ok(1)[OF assms(1) gr that sz] by (simp add: Capacity_def)
  have B: "Capacity v2 = n" if "Resize T n v h = (Ok (), v2, h2)"
  proof -
    from Resize_Ok_Reserve[OF that] obtain v1 h1 where
      R: "Reserve T n v h = (Ok (), v1, h1)" and v2: "v2 = v1\<lparr>m_size := n\<rparr>" by blast
    show ?thesis using Reserve_grow_Ok(1)[OF assms(1) gr R sz] v2 by (simp add: Capacity_def)
  qed
  have C: "\<exists>w h1. Reserve T n v h = (Ok (), w, h1) \<and> Capacity w = n"
    if "n * sizeof T \<le> limit h" "\<forall>t. \<forall>x\<in>set (elems h v). \<not> raises T (transfer_kind T) t x"
  proof -
    from Reserve_grow_success[OF assms(1) gr that(1) sz that(2)] obtain h1 where
      "Reserve T n v h =
         (Ok (), v\<lparr>m_data := \<lparr>m_buffer = Ptr (length (blocks h)) 0, m_capacity = n\<rparr>\<rparr>, h1)"
      by blast
    then show ?thesis by (intro exI conjI) (assumption, simp add: Capacity_def)
  qed
  have D: "\<exists>w h3. Resize T n v h = (Ok (), w, h3) \<and> Capacity w = n"
    if "n * sizeof T \<le> limit h" "\<forall>t. \<forall>x\<in>set (elems h v). \<not> raises T (transfer_kind T) t x"
      "\<forall>d. dflt T = Some d \<longrightarrow> (\<forall>t. \<not> raises T DefaultCtor t d)"
  proof -
    from Resize_grow_success[OF assms(1) gr that(1) sz that(2,3)] obtain h3 where
      "Resize T n v h =
         (Ok (), v\<lparr>m_data := \<lparr>m_buffer = Ptr (length (blocks h)) 0, m_capacity = n\<rparr>, m_size := n\<rparr>, h3)"
      by blast
    then show ?thesis by (intro exI conjI) (assumption, simp add: Capacity_def)
  qed
  show ?thesis using A B C D by blast
qed

text \<open>A vector \<open>[1, 2]\<close> of capacity 2: \<open>Reserve 5\<close> and \<open>Resize 5\<close> both give capacity 5, not 4.\<close>

theorem Reserve_sets_exact_capacity_witness:
  "vec_inv (one_block [Live 1, Live 2]) (vec_at 0 2 2) \<and> Capacity (vec_at 0 2 2) < 5 \<and>
   Reserve plain_type 5 (vec_at 0 2 2) (one_block [Live 1, Live 2]) =
     (Ok (), vec_at 1 5 2,
      \<lparr>blocks = [\<lparr>slots = [Raw, Raw], freed = 1\<rparr>,
                 \<lparr>slots = [Live 1, Live 2, Raw, Raw, Raw], freed = 0\<rparr>], limit = 16, ticks = 2\<rparr>) \<and>
   Capacity (vec_at 1 5 2) = 5 \<and>
   Resize plain_type 5 (vec_at 0 2 2) (one_block [Live 1, Live 2]) =
     (Ok (), vec_at 1 5 5,
      \<lparr>blocks = [\<lparr>slots = [Raw, Raw], freed = 1\<rparr>,
                 \<lparr>slots = [Live 1, Live 2, Live 0, Live 0, Live 0], freed = 0\<rparr>], limit = 16, ticks = 5\<rparr>) \<and>
   Capacity (vec_at 1 5 5) = 5"
proof -
  have inv: "vec_inv (one_block [Live 1, Live 2]) (vec_at 0 2 2)"
    by (simp add: run_defs)
  have c: "Capacity (vec_at 0 2 2) < 5"
    by (simp add: Capacity_def vec_at_def)
  have z: "0 < sizeof plain_type" "5 * sizeof plain_type < 2 ^ 64"
    by (simp_all add: plain_type_def)
  have r1: "Reserve plain_type 5 (vec_at 0 2 2) (one_block [Live 1, Live 2]) =
     (Ok (), vec_at 1 5 2,
      \<lparr>blocks = [\<lparr>slots = [Raw, Raw], freed = 1\<rparr>,
                 \<lparr>slots = [Live 1, Live 2, Raw, Raw, Raw], freed = 0\<rparr>], limit = 16, ticks = 2\<rparr>)"
    by (simp add: run_defs)
  have r2: "Resize plain_type 5 (vec_at 0 2 2) (one_block [Live 1, Live 2]) =
     (Ok (), vec_at 1 5 5,
      \<lparr>blocks = [\<lparr>slots = [Raw, Raw], freed = 1\<rparr>,
                 \<lparr>slots = [Live 1, Live 2, Live 0, Live 0, Live 0], freed = 0\<rparr>], limit = 16, ticks = 5\<rparr>)"
    by (simp add: run_defs)
  from Reserve_sets_exact_capacity[OF inv c z] r1 r2
  have "Capacity (vec_at 1 5 2) = 5" "Capacity (vec_at 1 5 5) = 5"
    by blast+
  then show ?thesis using inv c r1 r2 by blast
qed

text \<open>
  C10 as stated, for every \<open>n\<close> greater than the capacity, fails where the product in
  \<^verbatim>\<open>Allocate\<close> wraps: on the vector \<open>[1, 2]\<close> with elements of 8 bytes, neither
  \<open>Reserve (2 ^ 61)\<close> nor \<open>Resize (2 ^ 61)\<close> sets a capacity; both end in undefined
  behaviour when they transfer the elements into a block of 0 bytes.
\<close>

theorem wrapped_request_sets_no_capacity:
  "vec_inv (one_block [Live 1, Live 2]) (vec_at 0 2 2) \<and> Capacity (vec_at 0 2 2) < 2 ^ 61 \<and>
   fst (Reserve long_type (2 ^ 61) (vec_at 0 2 2) (one_block [Live 1, Live 2])) = Fault \<and>
   fst (Resize long_type (2 ^ 61) (vec_at 0 2 2) (one_block [Live 1, Live 2])) = Fault"
  by (simp add: run_defs)



text \<open>
  For a trivially default-constructible element type the new objects are
  default-initialised, which writes nothing: \<open>Resize 3\<close> of the vector \<open>[1]\<close> of capacity
  4 leaves two live objects of indeterminate value behind the \<open>1\<close>.
\<close>

theorem Resize_trivial_type_leaves_indeterminate_values:
  "Resize long_type 3 (vec_at 0 4 1) (one_block [Live 1, Raw, Raw, Raw]) =
     (Ok (), vec_at 0 4 3, one_block [Live 1, Indet, Indet, Raw])"
  by (simp add: run_defs)

section \<open>Failure during a reallocation\<close>

text \<open>
  C3 (as the code has it).  Let the element type be nothrow-move-constructible or
  copy-constructible.  When \<open>Reserve n\<close> throws, for \<open>n * sizeof T\<close> representable in
  \<^verbatim>\<open>size_t\<close>, or when \<open>EmplaceBack\<close> on a full vector throws, for an argument that is a
  value or a reference to const, the vector header is unchanged, the vector is still well
  formed with the same element sequence, and the heap is either untouched or consists of
  the former blocks, untouched, and one new block that was released once.  After a failed
  \<open>Reserve\<close> the new block holds no object.
\<close>

theorem growth_failure_keeps_container:
  assumes "vec_inv h v" "nothrow_move T \<or> copyable T"
  shows "(0 < sizeof T \<longrightarrow> n * sizeof T < 2 ^ 64 \<longrightarrow> Reserve T n v h = (Throw e, v', h') \<longrightarrow>
            v' = v \<and> vec_inv h' v \<and> elems h' v = elems h v \<and>
            (h' = h \<or> blocks h' = blocks h @ [\<lparr>slots = replicate n Raw, freed = 1\<rparr>])) \<and>
         (Size v = Capacity v \<longrightarrow> keeps_source args \<longrightarrow>
          EmplaceBack T args v h = (Throw e2, v2, h2) \<longrightarrow>
            v2 = v \<and> vec_inv h2 v \<and> elems h2 v = elems h v \<and>
            (h2 = h \<or> (\<exists>blk. blocks h2 = blocks h @ [blk] \<and> freed blk = 1)))"
proof -
  have "v' = v \<and> vec_inv h' v \<and> elems h' v = elems h v \<and>
            (h' = h \<or> blocks h' = blocks h @ [\<lparr>slots = replicate n Raw, freed = 1\<rparr>])"
    if R: "Reserve T n v h = (Throw e, v', h')" and sz: "0 < sizeof T" "n * sizeof T < 2 ^ 64"
    using Reserve_Throw[OF assms(1) R assms(2) sz] by blast
  moreover have "v2 = v \<and> vec_inv h2 v \<and> elems h2 v = elems h v \<and>
            (h2 = h \<or> (\<exists>blk. blocks h2 = blocks h @ [blk] \<and> freed blk = 1))"
    if full: "Size v = Capacity v" and E: "EmplaceBack T args v h = (Throw e2, v2, h2)"
      and ks: "keeps_source args"
  proof -
    have f: "m_size v = m_capacity (m_data v)" using full by (simp add: Size_def Capacity_def)
    show ?thesis using EmplaceBack_full_Throw[OF assms(1) f E assms(2) ks] by blast
  qed
  ultimately show ?thesis by blast
qed

text \<open>The vector \<open>[1, 2]\<close> of capacity 2 with an element type whose copy of \<open>2\<close> throws.\<close>

theorem growth_failure_keeps_container_witness:
  "vec_inv (one_block [Live 1, Live 2]) (vec_at 0 2 2) \<and>
   (nothrow_move (copy_fails_on 2) \<or> copyable (copy_fails_on 2)) \<and>
   Reserve (copy_fails_on 2) 4 (vec_at 0 2 2) (one_block [Live 1, Live 2]) =
     (Throw ElemExn, vec_at 0 2 2,
      \<lparr>blocks = [\<lparr>slots = [Live 1, Live 2], freed = 0\<rparr>,
                 \<lparr>slots = [Raw, Raw, Raw, Raw], freed = 1\<rparr>], limit = 16, ticks = 2\<rparr>) \<and>
   Size (vec_at 0 2 2) = Capacity (vec_at 0 2 2) \<and>
   EmplaceBack (copy_fails_on 2) (Val 9) (vec_at 0 2 2) (one_block [Live 1, Live 2]) =
     (Throw ElemExn, vec_at 0 2 2,
      \<lparr>blocks = [\<lparr>slots = [Live 1, Live 2], freed = 0\<rparr>,
                 \<lparr>slots = [Raw, Raw, Live 9, Raw], freed = 1\<rparr>], limit = 16, ticks = 3\<rparr>) \<and>
   elems \<lparr>blocks = [\<lparr>slots = [Live 1, Live 2], freed = 0\<rparr>,
                 \<lparr>slots = [Raw, Raw, Raw, Raw], freed = 1\<rparr>], limit = 16, ticks = 2\<rparr> (vec_at 0 2 2)
     = elems (one_block [Live 1, Live 2]) (vec_at 0 2 2) \<and>
   elems \<lparr>blocks = [\<lparr>slots = [Live 1, Live 2], freed = 0\<rparr>,
                 \<lparr>slots = [Raw, Raw, Live 9, Raw], freed = 1\<rparr>], limit = 16, ticks = 3\<rparr> (vec_at 0 2 2)
     = elems (one_block [Live 1, Live 2]) (vec_at 0 2 2)"
proof -
  have inv: "vec_inv (one_block [Live 1, Live 2]) (vec_at 0 2 2)"
    by (simp add: run_defs)
  have ty: "nothrow_move (copy_fails_on 2) \<or> copyable (copy_fails_on 2)"
    by (simp add: copy_fails_on_def)
  have r: "Reserve (copy_fails_on 2) 4 (vec_at 0 2 2) (one_block [Live 1, Live 2]) =
     (Throw ElemExn, vec_at 0 2 2,
      \<lparr>blocks = [\<lparr>slots = [Live 1, Live 2], freed = 0\<rparr>,
                 \<lparr>slots = [Raw, Raw, Raw, Raw], freed = 1\<rparr>], limit = 16, ticks = 2\<rparr>)"
    by (simp add: run_defs)
  have full: "Size (vec_at 0 2 2) = Capacity (vec_at 0 2 2)"
    by (simp add: Size_def Capacity_def vec_at_def)
  have e: "EmplaceBack (copy_fails_on 2) (Val 9) (vec_at 0 2 2) (one_block [Live 1, Live 2]) =
     (Throw ElemExn, vec_at 0 2 2,
      \<lparr>blocks = [\<lparr>slots = [Live 1, Live 2], freed = 0\<rparr>,
                 \<lparr>slots = [Raw, Raw, Live 9, Raw], freed = 1\<rparr>], limit = 16, ticks = 3\<rparr>)"
    by (simp add: run_defs)
  have z: "0 < sizeof (copy_fails_on 2)" "4 * sizeof (copy_fails_on 2) < 2 ^ 64"
    by (simp_all add: copy_fails_on_def)
  have ks: "keeps_source (Val (9::nat))" by simp
  from growth_failure_keeps_container[OF inv ty] r e full z ks
  have "elems \<lparr>blocks = [\<lparr>slots = [Live 1, Live 2], freed = 0\<rparr>,
                 \<lparr>slots = [Raw, Raw, Raw, Raw], freed = 1\<rparr>], limit = 16, ticks = 2\<rparr> (vec_at 0 2 2)
     = elems (one_block [Live 1, Live 2]) (vec_at 0 2 2)"
   and "elems \<lparr>blocks = [\<lparr>slots = [Live 1, Live 2], freed = 0\<rparr>,
                 \<lparr>slots = [Raw, Raw, Live 9, Raw], freed = 1\<rparr>], limit = 16, ticks = 3\<rparr> (vec_at 0 2 2)
     = elems (one_block [Live 1, Live 2]) (vec_at 0 2 2)"
    by blast+
  then show ?thesis using inv ty r full e by blast
qed

text \<open>
  C3 as stated fails for an element type that cannot be copied and whose move constructor
  may throw: such elements are moved, and when the move of \<open>2\<close> throws, the element \<open>1\<close>
  moved before it stays moved-from.  \<open>Reserve 4\<close> throws and leaves \<open>[0, 2]\<close> where the
  vector held \<open>[1, 2]\<close>.
\<close>

theorem Reserve_move_only_failure_changes_elements:
  "vec_inv (one_block [Live 1, Live 2]) (vec_at 0 2 2) \<and>
   elems (one_block [Live 1, Live 2]) (vec_at 0 2 2) = [1, 2] \<and>
   Reserve (move_only_fails_on 2) 4 (vec_at 0 2 2) (one_block [Live 1, Live 2]) =
     (Throw ElemExn, vec_at 0 2 2,
      \<lparr>blocks = [\<lparr>slots = [Live 0, Live 2], freed = 0\<rparr>,
                 \<lparr>slots = [Raw, Raw, Raw, Raw], freed = 1\<rparr>], limit = 16, ticks = 2\<rparr>) \<and>
   elems \<lparr>blocks = [\<lparr>slots = [Live 0, Live 2], freed = 0\<rparr>,
                 \<lparr>slots = [Raw, Raw, Raw, Raw], freed = 1\<rparr>], limit = 16, ticks = 2\<rparr> (vec_at 0 2 2)
     = [0, 2]"
  by (simp add: run_defs)

text \<open>
  In \<open>EmplaceBack\<close> on a full vector the new element is constructed in the new block
  first.  When a copy of an old element then throws, the new block is released with
  that element still alive: its destructor never runs.
\<close>

theorem EmplaceBack_failed_copy_leaves_live_object:
  "EmplaceBack (copy_fails_on 2) (Val 9) (vec_at 0 2 2) (one_block [Live 1, Live 2]) =
     (Throw ElemExn, vec_at 0 2 2,
      \<lparr>blocks = [\<lparr>slots = [Live 1, Live 2], freed = 0\<rparr>,
                 \<lparr>slots = [Raw, Raw, Live 9, Raw], freed = 1\<rparr>], limit = 16, ticks = 3\<rparr>)"
  by (simp add: run_defs)

text \<open>
  With an rvalue argument the object referred to is moved from before the old elements are
  copied: when the full vector \<open>[1]\<close> appends \<^verbatim>\<open>std::move\<close> of the object \<open>2\<close> in
  another block and the copy of \<open>1\<close> throws, the vector is as before, but that object is
  left moved-from.
\<close>

theorem EmplaceBack_rvalue_failure_leaves_source_moved_from:
  "vec_inv two_heap (vec_at 0 1 1) \<and> Size (vec_at 0 1 1) = Capacity (vec_at 0 1 1) \<and>
   EmplaceBack (copy_fails_on 1) (RRef (Ptr 1 0)) (vec_at 0 1 1) two_heap =
     (Throw ElemExn, vec_at 0 1 1,
      \<lparr>blocks = [\<lparr>slots = [Live 1], freed = 0\<rparr>, \<lparr>slots = [Live 0], freed = 0\<rparr>,
                 \<lparr>slots = [Raw, Live 2], freed = 1\<rparr>], limit = 16, ticks = 2\<rparr>)"
  by (simp add: run_defs)

section \<open>Copying\<close>

text \<open>
  C7.  For a well-formed source \<open>s\<close> whose size in bytes is representable in
  \<^verbatim>\<open>size_t\<close>: copy construction returns normally when the allocator serves that many
  bytes and no copy of an element of \<open>s\<close> throws.  When it returns normally, it yields a
  well-formed vector with the element sequence of \<open>s\<close>, leaves \<open>s\<close> as it was, and gives
  the copy a block other than that of \<open>s\<close>, so that writing any slot of the copy's block
  leaves the elements of \<open>s\<close> unchanged and the other way round.  Copy assignment to a
  well-formed \<open>v\<close> whose capacity is less than the size of \<open>s\<close> returns normally under the
  same two conditions; when it throws, \<open>v\<close> is unchanged, still well formed with its
  elements, and the former blocks are untouched; when it returns normally, the new \<open>v\<close> is
  the vector that the copy constructor builds from \<open>s\<close>, with the element sequence of
  \<open>s\<close>.
\<close>

theorem copy_is_independent:
  assumes "vec_inv h s" "0 < sizeof T" "Size s * sizeof T < 2 ^ 64"
  shows "(Vector_copy T s h = (Ok c, h') \<longrightarrow>
            elems h' c = elems h s \<and> vec_inv h' c \<and> elems h' s = elems h s \<and> vec_inv h' s \<and>
            (\<forall>a i j. m_buffer (m_data c) = Ptr a i \<longrightarrow> m_buffer (m_data s) \<noteq> Ptr a j) \<and>
            (\<forall>a i j x. m_buffer (m_data c) = Ptr a i \<longrightarrow>
                elems (put_slot (Ptr a j) x h') s = elems h' s) \<and>
            (\<forall>a i j x. m_buffer (m_data s) = Ptr a i \<longrightarrow>
                elems (put_slot (Ptr a j) x h') c = elems h' c)) \<and>
         (Size s * sizeof T \<le> limit h \<longrightarrow>
          (\<forall>t. \<forall>x\<in>set (elems h s). \<not> raises T CopyCtor t x) \<longrightarrow>
            (\<exists>w hw. Vector_copy T s h = (Ok w, hw)) \<and>
            (vec_inv h v \<longrightarrow> Capacity v < Size s \<longrightarrow>
               (\<exists>w hw. copy_assignment T v s h = (Ok (), w, hw)))) \<and>
         (vec_inv h v \<longrightarrow> Capacity v < Size s \<longrightarrow>
            (copy_assignment T v s h = (Throw e, v', h2) \<longrightarrow>
               v' = v \<and> vec_inv h2 v \<and> elems h2 v = elems h v \<and> (\<exists>bs. blocks h2 = blocks h @ bs)) \<and>
            (copy_assignment T v s h = (Ok (), v', h2) \<longrightarrow>
               (\<exists>h1. Vector_copy T s h = (Ok v', h1)) \<and>
               elems h2 v' = elems h s \<and> vec_inv h2 v' \<and> Size v' = Size s \<and>
               elems h2 s = elems h s \<and> vec_inv h2 s))"
proof -
  have sz: "0 < sizeof T" "m_size s * sizeof T < 2 ^ 64"
    using assms(2,3) by (simp_all add: Size_def)
  have A: "elems h' c = elems h s \<and> vec_inv h' c \<and> elems h' s = elems h s \<and> vec_inv h' s \<and>
            (\<forall>a i j. m_buffer (m_data c) = Ptr a i \<longrightarrow> m_buffer (m_data s) \<noteq> Ptr a j) \<and>
            (\<forall>a i j x. m_buffer (m_data c) = Ptr a i \<longrightarrow>
                elems (put_slot (Ptr a j) x h') s = elems h' s) \<and>
            (\<forall>a i j x. m_buffer (m_data s) = Ptr a i \<longrightarrow>
                elems (put_slot (Ptr a j) x h') c = elems h' c)"
    if VC: "Vector_copy T s h = (Ok c, h')"
  proof -
    note C = Vector_copy_Ok[OF assms(1) VC sz]
    have diff: "m_buffer (m_data s) \<noteq> Ptr a j" if ca: "m_buffer (m_data c) = Ptr a i" for a i j
    proof
      assume sa: "m_buffer (m_data s) = Ptr a j"
      have "a = length (blocks h)" using C(7) ca by auto
      then show False using vec_inv_PtrD(2)[OF assms(1) sa] by simp
    qed
    have "elems (put_slot (Ptr a j) x h') s = elems h' s" if "m_buffer (m_data c) = Ptr a i" for a i j x
      using diff[OF that] by (intro elems_put_slot_other) simp
    moreover have "elems (put_slot (Ptr a j) x h') c = elems h' c" if sa: "m_buffer (m_data s) = Ptr a i" for a i j x
    proof (rule elems_put_slot_other)
      fix k show "m_buffer (m_data c) \<noteq> Ptr a k"
        using diff[of a k i] sa by auto
    qed
    ultimately show ?thesis using C(1,2,3,4) diff by blast
  qed
  have S: "(\<exists>w hw. Vector_copy T s h = (Ok w, hw)) \<and>
            (vec_inv h v \<longrightarrow> Capacity v < Size s \<longrightarrow>
               (\<exists>w hw. copy_assignment T v s h = (Ok (), w, hw)))"
    if lim: "Size s * sizeof T \<le> limit h"
      and nr: "\<forall>t. \<forall>x\<in>set (elems h s). \<not> raises T CopyCtor t x"
  proof -
    have lim': "m_size s * sizeof T \<le> limit h" using lim by (simp add: Size_def)
    have "\<exists>w hw. Vector_copy T s h = (Ok w, hw)"
      by (rule Vector_copy_success[OF assms(1) lim' sz nr])
    moreover have "\<exists>w hw. copy_assignment T v s h = (Ok (), w, hw)"
      if inv: "vec_inv h v" and lt: "Capacity v < Size s"
    proof -
      have lt': "m_capacity (m_data v) < m_size s" using lt by (simp add: Capacity_def Size_def)
      show ?thesis by (rule copy_assignment_realloc_success[OF inv assms(1) lt' lim' sz nr])
    qed
    ultimately show ?thesis by blast
  qed
  have B: "v' = v \<and> vec_inv h2 v \<and> elems h2 v = elems h v \<and> (\<exists>bs. blocks h2 = blocks h @ bs)"
    if inv: "vec_inv h v" and lt: "Capacity v < Size s"
      and CA: "copy_assignment T v s h = (Throw e, v', h2)"
  proof -
    have lt': "m_capacity (m_data v) < m_size s" using lt by (simp add: Capacity_def Size_def)
    from copy_assignment_realloc_Throw[OF inv assms(1) lt' CA sz]
    have v: "v' = v" and bs: "\<exists>bs. blocks h2 = blocks h @ bs" by auto
    from bs obtain bs where "blocks h2 = blocks h @ bs" by blast
    from vec_inv_frame[OF inv this] v bs show ?thesis by blast
  qed
  have C: "(\<exists>h1. Vector_copy T s h = (Ok v', h1)) \<and>
               elems h2 v' = elems h s \<and> vec_inv h2 v' \<and> Size v' = Size s \<and>
               elems h2 s = elems h s \<and> vec_inv h2 s"
    if inv: "vec_inv h v" and lt: "Capacity v < Size s"
      and CA: "copy_assignment T v s h = (Ok (), v', h2)"
  proof -
    have lt': "m_capacity (m_data v) < m_size s" using lt by (simp add: Capacity_def Size_def)
    note R = copy_assignment_realloc_Ok[OF inv assms(1) lt' CA sz]
    show ?thesis using R(1,2,3,4,5,6) by (simp add: Size_def)
  qed
  show ?thesis using A S B C by blast
qed

text \<open>A source \<open>[1, 2, 3]\<close> and a target \<open>[7]\<close> of capacity 1.\<close>

theorem copy_is_independent_witness:
  "vec_inv src_and_target (vec_at 0 4 3) \<and> vec_inv src_and_target (vec_at 1 1 1) \<and>
   Capacity (vec_at 1 1 1) < Size (vec_at 0 4 3) \<and>
   Vector_copy plain_type (vec_at 0 4 3) src_and_target =
     (Ok (vec_at 2 3 3),
      \<lparr>blocks = [\<lparr>slots = [Live 1, Live 2, Live 3, Raw], freed = 0\<rparr>,
                 \<lparr>slots = [Live 7], freed = 0\<rparr>,
                 \<lparr>slots = [Live 1, Live 2, Live 3], freed = 0\<rparr>], limit = 16, ticks = 3\<rparr>) \<and>
   copy_assignment plain_type (vec_at 1 1 1) (vec_at 0 4 3) src_and_target =
     (Ok (), vec_at 2 3 3,
      \<lparr>blocks = [\<lparr>slots = [Live 1, Live 2, Live 3, Raw], freed = 0\<rparr>,
                 \<lparr>slots = [Raw], freed = 1\<rparr>,
                 \<lparr>slots = [Live 1, Live 2, Live 3], freed = 0\<rparr>], limit = 16, ticks = 3\<rparr>) \<and>
   copy_assignment (copy_fails_on 2) (vec_at 1 1 1) (vec_at 0 4 3) src_and_target =
     (Throw ElemExn, vec_at 1 1 1,
      \<lparr>blocks = [\<lparr>slots = [Live 1, Live 2, Live 3, Raw], freed = 0\<rparr>,
                 \<lparr>slots = [Live 7], freed = 0\<rparr>,
                 \<lparr>slots = [Raw, Raw, Raw], freed = 1\<rparr>], limit = 16, ticks = 2\<rparr>) \<and>
   elems \<lparr>blocks = [\<lparr>slots = [Live 1, Live 2, Live 3, Raw], freed = 0\<rparr>,
                 \<lparr>slots = [Live 7], freed = 0\<rparr>,
                 \<lparr>slots = [Live 1, Live 2, Live 3], freed = 0\<rparr>], limit = 16, ticks = 3\<rparr> (vec_at 2 3 3)
     = elems src_and_target (vec_at 0 4 3) \<and>
   elems \<lparr>blocks = [\<lparr>slots = [Live 1, Live 2, Live 3, Raw], freed = 0\<rparr>,
                 \<lparr>slots = [Raw], freed = 1\<rparr>,
                 \<lparr>slots = [Live 1, Live 2, Live 3], freed = 0\<rparr>], limit = 16, ticks = 3\<rparr> (vec_at 2 3 3)
     = elems src_and_target (vec_at 0 4 3) \<and>
   elems \<lparr>blocks = [\<lparr>slots = [Live 1, Live 2, Live 3, Raw], freed = 0\<rparr>,
                 \<lparr>slots = [Live 7], freed = 0\<rparr>,
                 \<lparr>slots = [Raw, Raw, Raw], freed = 1\<rparr>], limit = 16, ticks = 2\<rparr> (vec_at 1 1 1)
     = elems src_and_target (vec_at 1 1 1)"
  (is "?I1 \<and> ?I2 \<and> ?L \<and> ?VC \<and> ?CA \<and> ?CT \<and> ?E1 \<and> ?E2 \<and> ?E3")
proof -
  have i1: ?I1 by (simp add: run_defs)
  have i2: ?I2 by (simp add: run_defs)
  have l: ?L by (simp add: Capacity_def Size_def vec_at_def)
  have vc: ?VC by (simp add: run_defs)
  have ca: ?CA by (simp add: run_defs)
  have ct: ?CT by (simp add: run_defs)
  have z: "0 < sizeof plain_type" "Size (vec_at 0 4 3) * sizeof plain_type < 2 ^ 64"
    by (simp_all add: plain_type_def Size_def vec_at_def)
  have zf: "0 < sizeof (copy_fails_on 2)" "Size (vec_at 0 4 3) * sizeof (copy_fails_on 2) < 2 ^ 64"
    by (simp_all add: copy_fails_on_def Size_def vec_at_def)
  from copy_is_independent[OF i1 z] vc have e1: ?E1 by blast
  from copy_is_independent[OF i1 z] i2 l ca have e2: ?E2 by blast
  from copy_is_independent[OF i1 zf] i2 l ct have e3: ?E3 by blast
  from i1 i2 l vc ca ct e1 e2 e3 show ?thesis by blast
qed

section \<open>Erase\<close>

text \<open>
  C6.  For a well-formed vector: if it is empty, \<open>Erase pos\<close> returns \<open>pos\<close> for any
  \<open>pos\<close> and changes neither the vector nor the heap.  If \<open>pos\<close> points to the live
  element of index \<open>k\<close>, \<open>Erase pos\<close> never ends in undefined behaviour; it returns
  normally when no move assignment of a later element throws; and when it returns normally
  it returns \<open>pos\<close>, the size is one less, and the element sequence is the former one
  without its element of index \<open>k\<close>, the others in their order.
\<close>

theorem Erase_removes_one:
  assumes "vec_inv h v" "Erase T pos v h = (r, v', h')"
  shows "(Size v = 0 \<longrightarrow> r = Ok pos \<and> v' = v \<and> h' = h) \<and>
         (\<forall>a k. pos = Ptr a k \<and> m_buffer (m_data v) = Ptr a 0 \<and> k < Size v \<longrightarrow>
            r \<noteq> Fault \<and>
            (\<forall>p. r = Ok p \<longrightarrow>
               p = pos \<and> Size v' = Size v - 1 \<and> vec_inv h' v' \<and>
               elems h' v' = take k (elems h v) @ drop (Suc k) (elems h v)) \<and>
            ((\<forall>t. \<forall>y\<in>set (drop (Suc k) (elems h v)). \<not> raises T MoveAssign t y) \<longrightarrow> r = Ok pos))"
proof -
  have A: "r = Ok pos \<and> v' = v \<and> h' = h" if "Size v = 0"
    using Erase_empty[OF assms(1), of T pos] that assms(2) by (simp add: Size_def)
  have B: "r \<noteq> Fault \<and>
            (\<forall>p. r = Ok p \<longrightarrow>
               p = pos \<and> Size v' = Size v - 1 \<and> vec_inv h' v' \<and>
               elems h' v' = take k (elems h v) @ drop (Suc k) (elems h v)) \<and>
            ((\<forall>t. \<forall>y\<in>set (drop (Suc k) (elems h v)). \<not> raises T MoveAssign t y) \<longrightarrow> r = Ok pos)"
    if pos: "pos = Ptr a k" and buf: "m_buffer (m_data v) = Ptr a 0" and k: "k < Size v" for a k
  proof -
    note D = vec_inv_PtrD[OF assms(1) buf]
    have k': "k < m_size v" using k by (simp add: Size_def)
    let ?ys = "take k (elems h v) @ drop (Suc k) (elems h v)"
    from Erase_live[OF assms(1) buf k', of T] show ?thesis
    proof (elim disjE exE conjE bexE)
      fix t
      assume "Erase T (Ptr a k) v h =
            (Ok (Ptr a k), v\<lparr>m_size := m_size v - 1\<rparr>,
             set_slots a (map Live ?ys @ replicate (Suc (m_capacity (m_data v) - m_size v)) Raw) (h\<lparr>ticks := t\<rparr>))"
      then have eq: "r = Ok pos" "v' = v\<lparr>m_size := m_size v - 1\<rparr>"
        "h' = set_slots a (map Live ?ys @ replicate (Suc (m_capacity (m_data v) - m_size v)) Raw) (h\<lparr>ticks := t\<rparr>)"
        using assms(2) pos by simp_all
      have len: "length ?ys = m_size v - 1" using D(6) k' by simp
      have "m_capacity (m_data v') - length ?ys = Suc (m_capacity (m_data v) - m_size v)"
        using D(5) k' len eq(2) by simp
      then have sl: "slots (blocks h' ! a) = map Live ?ys @ replicate (m_capacity (m_data v') - length ?ys) Raw"
        using D(2) unfolding eq(3) by simp
      have "vec_inv h' v'"
        using D buf len by (intro vec_invI[OF _ _ _ _ _ _ sl]) (simp_all add: eq)
      moreover have "elems h' v' = ?ys"
        using buf len by (intro elems_block[OF _ sl]) (simp_all add: eq(2))
      ultimately show ?thesis using eq(1,2) by (simp add: Size_def)
    next
      fix h2 t' z
      assume "Erase T (Ptr a k) v h = (Throw ElemExn, v, h2)"
        and z: "z \<in> set (drop (Suc k) (elems h v))" "raises T MoveAssign t' z"
      then have "r = Throw ElemExn" using assms(2) pos by simp
      then show ?thesis using z by auto
    qed
  qed
  show ?thesis using A B by blast
qed

text \<open>Erasing the middle element of \<open>[10, 20, 30]\<close>, and erasing from an empty vector.\<close>

theorem Erase_removes_one_witness:
  "vec_inv (one_block [Live 10, Live 20, Live 30, Raw]) (vec_at 0 4 3) \<and>
   Erase plain_type (Ptr 0 1) (vec_at 0 4 3) (one_block [Live 10, Live 20, Live 30, Raw]) =
     (Ok (Ptr 0 1), vec_at 0 4 2,
      \<lparr>blocks = [\<lparr>slots = [Live 10, Live 30, Raw, Raw], freed = 0\<rparr>], limit = 16, ticks = 1\<rparr>) \<and>
   elems \<lparr>blocks = [\<lparr>slots = [Live 10, Live 30, Raw, Raw], freed = 0\<rparr>], limit = 16, ticks = 1\<rparr>
       (vec_at 0 4 2)
     = take 1 (elems (one_block [Live 10, Live 20, Live 30, Raw]) (vec_at 0 4 3))
       @ drop (Suc 1) (elems (one_block [Live 10, Live 20, Live 30, Raw]) (vec_at 0 4 3)) \<and>
   vec_inv empty_heap Vector_default \<and> Size Vector_default = 0 \<and>
   Erase plain_type (Ptr 5 7) Vector_default empty_heap = (Ok (Ptr 5 7), Vector_default, empty_heap)"
  (is "?I \<and> ?E \<and> ?L \<and> ?IE \<and> ?SE \<and> ?EE")
proof -
  have i: ?I by (simp add: run_defs)
  have e: ?E by (simp add: run_defs)
  have i0: ?IE by (simp add: run_defs)
  have s0: ?SE by (simp add: run_defs)
  have e0: ?EE by (simp add: run_defs)
  have pre: "Ptr 0 1 = Ptr 0 1 \<and> m_buffer (m_data (vec_at 0 4 3)) = Ptr 0 0 \<and> 1 < Size (vec_at 0 4 3)"
    by (simp add: vec_at_def Size_def)
  from Erase_removes_one[OF i e] pre have l: ?L by blast
  from Erase_removes_one[OF i0 e0] s0 have "Ok (Ptr 5 7) = (Ok (Ptr 5 7) :: ptr outcome)" by blast
  with i e l i0 s0 e0 show ?thesis by blast
qed
section \<open>Insertion\<close>

text \<open>
  C4 (the code departs from it).  The handler of \<^verbatim>\<open>InsertWithRealloc\<close> runs the destructor
  of the local \<^verbatim>\<open>new_data\<close>, swallows the exception, and the function then returns, which
  runs that destructor a second time.  The vector \<open>[1, 2]\<close> of capacity 2 with an element
  type whose copy of \<open>2\<close> throws, and \<^verbatim>\<open>Insert(begin(), 9)\<close>: the \<^verbatim>\<open>try\<close> block
  constructs \<open>9\<close> in the new block, copies \<open>1\<close>, and the copy of \<open>2\<close> throws, which
  destroys the copy of \<open>1\<close>.  After the handler and the return the new block has been
  released twice, which is undefined behaviour, and the object \<open>9\<close> in it was never
  destroyed.  The old block and the vector are as before.
\<close>

theorem InsertWithRealloc_failure_releases_block_twice:
  "vec_inv (one_block [Live 1, Live 2]) (vec_at 0 2 2) \<and>
   Size (vec_at 0 2 2) = Capacity (vec_at 0 2 2) \<and>
   InsertWithRealloc_try (copy_fails_on 2) 0 (Val 9) \<lparr>m_buffer = Ptr 1 0, m_capacity = 4\<rparr> (vec_at 0 2 2)
     \<lparr>blocks = [\<lparr>slots = [Live 1, Live 2], freed = 0\<rparr>,
                \<lparr>slots = [Raw, Raw, Raw, Raw], freed = 0\<rparr>], limit = 16, ticks = 0\<rparr> =
     (Throw ElemExn, vec_at 0 2 2, \<lparr>m_buffer = Ptr 1 0, m_capacity = 4\<rparr>,
      \<lparr>blocks = [\<lparr>slots = [Live 1, Live 2], freed = 0\<rparr>,
                 \<lparr>slots = [Live 9, Raw, Raw, Raw], freed = 0\<rparr>], limit = 16, ticks = 3\<rparr>) \<and>
   Insert (copy_fails_on 2) (Ptr 0 0) (Val 9) (vec_at 0 2 2) (one_block [Live 1, Live 2]) =
     (Fault, vec_at 0 2 2,
      \<lparr>blocks = [\<lparr>slots = [Live 1, Live 2], freed = 0\<rparr>,
                 \<lparr>slots = [Live 9, Raw, Raw, Raw], freed = 2\<rparr>], limit = 16, ticks = 3\<rparr>)"
  by (simp add: run_defs)

text \<open>
  C5 (the code departs from it).  \<^verbatim>\<open>InsertWithoutRealloc\<close> shifts the elements first and
  builds the temporary from its arguments afterwards.  When the argument is a reference to
  an element of the vector at or behind the position, that element has been shifted by
  then: on the vector \<open>[1, 2, 3]\<close> of capacity 4, \<^verbatim>\<open>Insert(begin(), v[1])\<close> returns
  normally with size 4 and the position of the first slot, but the value placed there is
  \<open>1\<close>, not the \<open>2\<close> that the argument referred to when the call was made.
\<close>

theorem Insert_of_own_element_places_other_value:
  "vec_inv (one_block [Live 1, Live 2, Live 3, Raw]) (vec_at 0 4 3) \<and>
   elems (one_block [Live 1, Live 2, Live 3, Raw]) (vec_at 0 4 3) = [1, 2, 3] \<and>
   arg_value (one_block [Live 1, Live 2, Live 3, Raw]) (CRef (Ptr 0 1)) = Some 2 \<and>
   Insert plain_type (Ptr 0 0) (CRef (Ptr 0 1)) (vec_at 0 4 3) (one_block [Live 1, Live 2, Live 3, Raw]) =
     (Ok (Ptr 0 0), vec_at 0 4 4,
      \<lparr>blocks = [\<lparr>slots = [Live 1, Live 1, Live 2, Live 3], freed = 0\<rparr>], limit = 16, ticks = 5\<rparr>) \<and>
   elems \<lparr>blocks = [\<lparr>slots = [Live 1, Live 1, Live 2, Live 3], freed = 0\<rparr>], limit = 16, ticks = 5\<rparr>
     (vec_at 0 4 4) = [1, 1, 2, 3]"
  by (simp add: run_defs)

text \<open>
  The reallocating path constructs the new element before it transfers the old ones, and
  the same call on the full vector \<open>[1, 2]\<close> does place \<open>2\<close>; an argument that does not
  refer to the vector is placed as the claim says on either path.
\<close>

theorem Insert_of_own_element_with_reallocation:
  "Insert plain_type (Ptr 0 0) (CRef (Ptr 0 1)) (vec_at 0 2 2) (one_block [Live 1, Live 2]) =
     (Ok (Ptr 1 0), vec_at 1 4 3,
      \<lparr>blocks = [\<lparr>slots = [Raw, Raw], freed = 1\<rparr>,
                 \<lparr>slots = [Live 2, Live 1, Live 2, Raw], freed = 0\<rparr>], limit = 16, ticks = 3\<rparr>)"
  by (simp add: run_defs)

theorem Insert_of_a_value:
  "Insert plain_type (Ptr 0 0) (Val 9) (vec_at 0 4 3) (one_block [Live 1, Live 2, Live 3, Raw]) =
     (Ok (Ptr 0 0), vec_at 0 4 4,
      \<lparr>blocks = [\<lparr>slots = [Live 9, Live 1, Live 2, Live 3], freed = 0\<rparr>], limit = 16, ticks = 5\<rparr>) \<and>
   Insert plain_type (Ptr 0 1) (Val 9) (vec_at 0 2 2) (one_block [Live 1, Live 2]) =
     (Ok (Ptr 1 1), vec_at 1 4 3,
      \<lparr>blocks = [\<lparr>slots = [Raw, Raw], freed = 1\<rparr>,
                 \<lparr>slots = [Live 1, Live 9, Live 2, Raw], freed = 0\<rparr>], limit = 16, ticks = 3\<rparr>)"
  by (simp add: run_defs)

end
